theory Spec2Isabelle
  imports
    Complex_Main
    "HOL-Library.Char_ord"
    "HOL-Library.List_Lexorder"
    "HOL-Library.Product_Lexorder"
begin

section \<open>CLDR plural rules of babel (\<^verbatim>\<open>src/babel/plural.py\<close>)\<close>

text \<open>
  A shallow embedding of \<^verbatim>\<open>babel/plural.py\<close>. Python exceptions are values of the
  type \<open>error\<close>; a function that may raise returns \<open>error + 'a\<close> with \<open>Inl\<close> the
  exception. Python \<^verbatim>\<open>int\<close> is \<open>int\<close>, \<^verbatim>\<open>str\<close> is \<open>string\<close> (characters below 256).
\<close>

subsection \<open>Exceptions\<close>

text \<open>
  \<^item> \<open>ValueError_unknown_tag key\<close> is \<^verbatim>\<open>ValueError(f'unknown tag {key!r}')\<close>,
    \<open>ValueError_defined_twice key\<close> is \<^verbatim>\<open>ValueError(f'tag {key!r} defined twice')\<close>,
    \<open>ValueError_format\<close> the \<^verbatim>\<open>ValueError\<close> of the \<^verbatim>\<open>%\<close> operator on a bad format;
  \<^item> \<open>RuleError text\<close> is a \<^verbatim>\<open>RuleError\<close> carrying the text of a token (empty at
    the end of the input);
  \<^item> \<open>TokenizeError offset c\<close> is the tokenizer's failure at an unrecognised character;
  \<^item> the others are Python's built-in exceptions of these names.
\<close>

datatype error =
    ValueError_unknown_tag string
  | ValueError_defined_twice string
  | ValueError_format
  | RuleError string
  | TokenizeError nat char
  | AttributeError string
  | TypeError
  | SyntaxError
  | ZeroDivisionError

subsection \<open>Numbers\<close>

text \<open>
  A finite \<^verbatim>\<open>decimal.Decimal\<close> is a signed coefficient and an exponent, its value
  \<open>coefficient * 10 ^ exponent\<close>; \<^verbatim>\<open>Decimal('1.30')\<close> is \<open>Decimal 130 (-2)\<close>.
  Non-finite decimals (NaN, Infinity) and the sign of zero are not modelled.
\<close>

datatype decimal = Decimal (coefficient: int) (exponent: int)

fun dec_value :: "decimal \<Rightarrow> rat" where
  "dec_value (Decimal c e) =
     (if 0 \<le> e then of_int (c * 10 ^ nat e) else of_int c / of_int (10 ^ nat (- e)))"

text \<open>
  The numbers the functions receive: a Python \<^verbatim>\<open>int\<close>, a \<^verbatim>\<open>float\<close> or a
  \<^verbatim>\<open>Decimal\<close>. The only thing the code does with a float is
  \<^verbatim>\<open>decimal.Decimal(str(num))\<close>, so a float \<open>x\<close> is represented by the decimal that
  \<^verbatim>\<open>str(x)\<close> writes: \<^verbatim>\<open>1.2\<close> is \<open>PyFloat (Decimal 12 (-1))\<close>.
\<close>

datatype number = PyInt int | PyFloat decimal | PyDecimal decimal

fun num_value :: "number \<Rightarrow> rat" where
  "num_value (PyInt k) = of_int k"
| "num_value (PyFloat d) = dec_value d"
| "num_value (PyDecimal d) = dec_value d"

text \<open>\<^verbatim>\<open>decimal.Decimal(str(num))\<close> for a float, the identity otherwise
  (\<^verbatim>\<open>if isinstance(num, float): num = decimal.Decimal(str(num))\<close>).\<close>

fun float_to_decimal :: "number \<Rightarrow> number" where
  "float_to_decimal (PyFloat d) = PyDecimal d"
| "float_to_decimal n = n"

text \<open>
  \<^verbatim>\<open>Decimal.to_integral_value()\<close> under the default context (ROUND_HALF_EVEN): a decimal
  with a non-negative exponent is returned as it is, another one is rounded to exponent 0.
\<close>

fun dec_to_integral_value :: "decimal \<Rightarrow> decimal" where
  "dec_to_integral_value (Decimal c e) =
     (if 0 \<le> e then Decimal c e
      else let p = 10 ^ nat (- e); q = c div p; r = c mod p
           in Decimal (if 2 * r < p then q
                       else if p < 2 * r then q + 1
                       else if even q then q else q + 1) 0)"

text \<open>The method call \<^verbatim>\<open>num.to_integral_value()\<close>: \<^verbatim>\<open>int\<close> and \<^verbatim>\<open>float\<close> have no such
  attribute.\<close>

fun to_integral_value :: "number \<Rightarrow> error + number" where
  "to_integral_value (PyDecimal d) = Inr (PyDecimal (dec_to_integral_value d))"
| "to_integral_value (PyInt k) = Inl (AttributeError ''to_integral_value'')"
| "to_integral_value (PyFloat d) = Inl (AttributeError ''to_integral_value'')"

subsection \<open>Range and modulo primitives\<close>

text \<open>
  An entry of a range list: a bare number
  (\<^verbatim>\<open>isinstance(range_item, (int, float, decimal.Decimal))\<close>) or a pair
  \<^verbatim>\<open>(start, end)\<close>. The bounds are integers, as the rule grammar has them.
\<close>

datatype range_item = Bare int | Span int int

text \<open>
  \<^verbatim>\<open>
  for range_item in range_list:
      if isinstance(range_item, (int, float, decimal.Decimal)):
          if num == range_item:
              return True
      else:
          start, end = range_item
          if start <= num <= end and num.to_integral_value() == num:
              return True
  return False
  \<close>
\<close>

fun in_range_loop :: "number \<Rightarrow> range_item list \<Rightarrow> error + bool" where
  "in_range_loop num [] = Inr False"
| "in_range_loop num (Bare x # rs) =
     (if num_value num = of_int x then Inr True else in_range_loop num rs)"
| "in_range_loop num (Span start end # rs) =
     (if of_int start \<le> num_value num \<and> num_value num \<le> of_int end
      then (case to_integral_value num of
              Inl err \<Rightarrow> Inl err
            | Inr r \<Rightarrow> if num_value r = num_value num then Inr True
                      else in_range_loop num rs)
      else in_range_loop num rs)"

definition in_range_list :: "number \<Rightarrow> range_item list \<Rightarrow> error + bool" where
  "in_range_list num range_list = in_range_loop (float_to_decimal num) range_list"

fun within_range_loop :: "number \<Rightarrow> range_item list \<Rightarrow> bool" where
  "within_range_loop num [] = False"
| "within_range_loop num (Bare x # rs) =
     (if num_value num = of_int x then True else within_range_loop num rs)"
| "within_range_loop num (Span start end # rs) =
     (if of_int start \<le> num_value num \<and> num_value num \<le> of_int end then True
      else within_range_loop num rs)"

definition within_range_list :: "number \<Rightarrow> range_item list \<Rightarrow> bool" where
  "within_range_list num range_list = within_range_loop (float_to_decimal num) range_list"

text \<open>
  Python's \<^verbatim>\<open>a % b\<close> on integers: the remainder of the floored division (it has the sign
  of \<open>b\<close>), \<^verbatim>\<open>ZeroDivisionError\<close> for \<open>b = 0\<close>. HOL's \<open>mod\<close> on \<open>int\<close> is the same
  remainder for \<open>b \<noteq> 0\<close>.
\<close>

definition py_mod :: "int \<Rightarrow> int \<Rightarrow> error + int" where
  "py_mod a b = (if b = 0 then Inl ZeroDivisionError else Inr (a mod b))"

text \<open>\<^verbatim>\<open>return ((a % b) + b) % b if a < 0 else a % b\<close>, on Python integers.\<close>

definition cldr_modulo :: "int \<Rightarrow> int \<Rightarrow> error + int" where
  "cldr_modulo a b =
     (if a < 0 then (case py_mod a b of Inl err \<Rightarrow> Inl err | Inr m \<Rightarrow> py_mod (m + b) b)
      else py_mod a b)"

text \<open>
  The specification's words, for comparison: the mathematical non-negative modulo, and
  \<open>((a mod b) + b) mod b\<close> for \<open>a < 0\<close>, \<open>a mod b\<close> otherwise, with that modulo.
\<close>

definition nonneg_mod :: "int \<Rightarrow> int \<Rightarrow> int" where
  "nonneg_mod a b = a mod \<bar>b\<bar>"


subsection \<open>Tokens\<close>

text \<open>
  The token rules are the table \<^verbatim>\<open>_RULES\<close> of the source, tried in this order at the
  current position:
  \<^verbatim>\<open>
  (None,       re.compile(r'\s+', re.UNICODE)),
  ('word',     re.compile(r'\b(and|or|is|(?:with)?in|not|mod|[nivwftce])\b')),
  ('value',    re.compile(r'\d+')),
  ('symbol',   re.compile(r'%|,|!=|=')),
  ('ellipsis', re.compile(r'\.{2,3}|\u2026', re.UNICODE))
  \<close>
  Rule text is ASCII here: the classes \<^verbatim>\<open>\s\<close>, \<^verbatim>\<open>\d\<close> and \<^verbatim>\<open>\w\<close> are their ASCII members,
  and the alternative \<^verbatim>\<open>\u2026\<close> of the last rule, a character above 255, is left out.
  A token is the pair \<^verbatim>\<open>(type, text)\<close>, as \<^verbatim>\<open>self.tokens[-1][1]\<close> reads it.
\<close>

datatype token_type = Word | ValueT | Symbol | Ellipsis

type_synonym token = "token_type \<times> string"

definition is_space :: "char \<Rightarrow> bool" where
  "is_space c = (c \<in> set [CHR '' '', CHR 0x09, CHR 0x0A, CHR 0x0B, CHR 0x0C, CHR 0x0D,
                            CHR 0x1C, CHR 0x1D, CHR 0x1E, CHR 0x1F])"

definition is_digit :: "char \<Rightarrow> bool" where
  "is_digit c = (c \<in> set ''0123456789'')"

definition is_word_char :: "char \<Rightarrow> bool" where
  "is_word_char c =
     (c \<in> set ''abcdefghijklmnopqrstuvwxyzABCDEFGHIJKLMNOPQRSTUVWXYZ0123456789_'')"

definition reserved_words :: "string list" where
  "reserved_words = [''and'', ''or'', ''is'', ''in'', ''within'', ''not'', ''mod'',
                     ''n'', ''i'', ''v'', ''w'', ''f'', ''t'', ''c'', ''e'']"

text \<open>\<^verbatim>\<open>\s+\<close>: the longest run of whitespace, at least one character.\<close>

definition match_space :: "string \<Rightarrow> string option" where
  "match_space s = (let m = takeWhile is_space s in if m = [] then None else Some m)"

text \<open>
  \<^verbatim>\<open>\b(and|or|is|(?:with)?in|not|mod|[nivwftce])\b\<close>: every alternative is made of
  letters, so the two \<^verbatim>\<open>\b\<close> say that the character before the position is no word
  character (\<open>prev\<close> tells whether it is one) and that the match is the whole run of
  word characters at the position.
\<close>

definition match_word :: "bool \<Rightarrow> string \<Rightarrow> string option" where
  "match_word prev s =
     (let m = takeWhile is_word_char s
      in if \<not> prev \<and> m \<in> set reserved_words then Some m else None)"

text \<open>\<^verbatim>\<open>\d+\<close>\<close>

definition match_value :: "string \<Rightarrow> string option" where
  "match_value s = (let m = takeWhile is_digit s in if m = [] then None else Some m)"

text \<open>\<^verbatim>\<open>%|,|!=|=\<close>\<close>

definition match_symbol :: "string \<Rightarrow> string option" where
  "match_symbol s =
     (if take 1 s = ''%'' then Some ''%''
      else if take 1 s = '','' then Some '',''
      else if take 2 s = ''!='' then Some ''!=''
      else if take 1 s = ''='' then Some ''=''
      else None)"

text \<open>\<^verbatim>\<open>\.{2,3}\<close>: three dots when there are three, else two.\<close>

definition match_ellipsis :: "string \<Rightarrow> string option" where
  "match_ellipsis s =
     (if take 3 s = ''...'' then Some ''...''
      else if take 2 s = ''..'' then Some ''..''
      else None)"

text \<open>The first rule of the table that matches, with its token type (\<open>None\<close> for
  whitespace) and the matched text.\<close>

definition first_match :: "bool \<Rightarrow> string \<Rightarrow> (token_type option \<times> string) option" where
  "first_match prev s =
     (case match_space s of
        Some m \<Rightarrow> Some (None, m)
      | None \<Rightarrow>
     (case match_word prev s of
        Some m \<Rightarrow> Some (Some Word, m)
      | None \<Rightarrow>
     (case match_value s of
        Some m \<Rightarrow> Some (Some ValueT, m)
      | None \<Rightarrow>
     (case match_symbol s of
        Some m \<Rightarrow> Some (Some Symbol, m)
      | None \<Rightarrow>
     (case match_ellipsis s of
        Some m \<Rightarrow> Some (Some Ellipsis, m)
      | None \<Rightarrow> None)))))"

text \<open>
  Modelled from the spec: the function \<^verbatim>\<open>tokenize_rule\<close>, which \<^verbatim>\<open>_Parser.__init__\<close> calls
  and the source does not define. The specification (4.2): the rules are applied in
  priority order, the first matching rule at the current position wins, whitespace is
  skipped, no match at a non-empty remaining position is a failure that reports the
  offset and the offending character, and the tokens are produced in source order.
  \<open>n\<close> is the length of the whole text, \<open>s\<close> what is left of it, \<open>prev\<close> whether the
  character before \<open>s\<close> is a word character.
\<close>

function tokenize_loop :: "nat \<Rightarrow> bool \<Rightarrow> string \<Rightarrow> error + token list" where
  "tokenize_loop n prev s =
     (if s = [] then Inr []
      else case first_match prev s of
             None \<Rightarrow> Inl (TokenizeError (n - length s) (hd s))
           | Some (ty, m) \<Rightarrow>
               (case tokenize_loop n (is_word_char (last m)) (drop (length m) s) of
                  Inl err \<Rightarrow> Inl err
                | Inr ts \<Rightarrow> Inr (case ty of None \<Rightarrow> ts | Some tt \<Rightarrow> (tt, m) # ts)))"
  by pat_completeness auto
termination
proof (relation "measure (\<lambda>(n, prev, s). length s)")
  show "wf (measure (\<lambda>(n, prev, s). length s))"
    by simp
next
  fix n :: nat and prev :: bool and s :: string and x2 :: "token_type option \<times> string"
    and ty :: "token_type option" and m :: string
  assume "s \<noteq> []" and "first_match prev s = Some x2" and "(ty, m) = x2"
  then have "m \<noteq> []"
    by (auto simp: first_match_def match_space_def match_word_def match_value_def
          match_symbol_def match_ellipsis_def reserved_words_def Let_def
        split: option.splits if_splits)
  with \<open>s \<noteq> []\<close>
  show "((n, is_word_char (last m), drop (length m) s), (n, prev, s))
          \<in> measure (\<lambda>(n, prev, s). length s)"
    by simp
qed

declare tokenize_loop.simps [simp del]

definition tokenize_rule :: "string \<Rightarrow> error + token list" where
  "tokenize_rule s = tokenize_loop (length s) False s"

subsection \<open>Abstract syntax\<close>

text \<open>
  Modelled from the spec: the abstract syntax tree, which the parser's absent methods
  build. The specification (3) gives the node shapes: \<open>value(int)\<close>, \<open>operand(name)\<close>
  with the names \<open>n i v w f t c e\<close>, \<open>mod\<close>, \<open>is\<close>, \<open>is_not\<close>, \<open>in\<close>, \<open>not_in\<close>,
  \<open>within\<close>, \<open>not_within\<close>, \<open>and\<close>, \<open>or\<close>, \<open>not\<close>; a range list is a sequence of
  single integers and \<open>(low, high)\<close> pairs, the type \<open>range_item list\<close> above.
\<close>

datatype operand = Op_n | Op_i | Op_v | Op_w | Op_f | Op_t | Op_c | Op_e

datatype ast =
    ValueN int
  | OperandN operand
  | ModN ast ast
  | IsN ast ast
  | IsNotN ast ast
  | InN ast "range_item list"
  | NotInN ast "range_item list"
  | WithinN ast "range_item list"
  | NotWithinN ast "range_item list"
  | AndN ast ast
  | OrN ast ast
  | NotN ast

subsection \<open>Parser\<close>

text \<open>
  Modelled from the spec: the method \<^verbatim>\<open>_Parser.condition\<close> and what it calls, absent from
  the source. The specification (4.3): recursive descent over the token sequence for
  \<^verbatim>\<open>
  condition      := and_condition ('or' and_condition)*
  and_condition  := relation ('and' relation)*
  relation       := is_relation | in_relation | within_relation
  is_relation    := expr 'is' 'not'? value
  in_relation    := expr ('not'? 'in' | '=' | '!=') range_list
  within_relation:= expr 'not'? 'within' range_list
  expr           := operand (('mod'|'%') value)?
  operand        := 'n'|'i'|'f'|'t'|'v'|'w'|'c'|'e'
  range_list     := (range | value) (',' range_list)*
  range          := value '..' value
  value          := digit+
  \<close>
  where \<open>=\<close> is a synonym of \<open>in\<close> and \<open>!=\<close> of \<open>not in\<close>, and a violation raises a
  \<^verbatim>\<open>RuleError\<close> carrying the offending token text. Each function takes the tokens left
  and returns the node with the tokens after it. The repetitions nest to the left.
\<close>

text \<open>\<^verbatim>\<open>int(text)\<close> of a token of digits.\<close>

definition int_of_digits :: "string \<Rightarrow> int" where
  "int_of_digits s = foldl (\<lambda>acc c. 10 * acc + (int (of_char c) - 48)) 0 s"

definition offending :: "token list \<Rightarrow> string" where
  "offending ts = (case ts of [] \<Rightarrow> [] | t # _ \<Rightarrow> snd t)"

text \<open>The tokens after the next one when that is the token \<open>(ty, w)\<close>.\<close>

definition skip_token :: "token_type \<Rightarrow> string \<Rightarrow> token list \<Rightarrow> token list option" where
  "skip_token ty w ts =
     (case ts of [] \<Rightarrow> None | t # rest \<Rightarrow> if t = (ty, w) then Some rest else None)"

definition value_p :: "token list \<Rightarrow> error + (int \<times> token list)" where
  "value_p ts =
     (case ts of
        [] \<Rightarrow> Inl (RuleError (offending ts))
      | t # rest \<Rightarrow> if fst t = ValueT then Inr (int_of_digits (snd t), rest)
                  else Inl (RuleError (offending ts)))"

definition range_or_value :: "token list \<Rightarrow> error + (range_item \<times> token list)" where
  "range_or_value ts =
     (case value_p ts of
        Inl err \<Rightarrow> Inl err
      | Inr (a, ts1) \<Rightarrow>
          (case skip_token Ellipsis ''..'' ts1 of
             Some ts2 \<Rightarrow>
               (case value_p ts2 of
                  Inl err \<Rightarrow> Inl err
                | Inr (b, ts3) \<Rightarrow> Inr (Span a b, ts3))
           | None \<Rightarrow> Inr (Bare a, ts1)))"

function range_list :: "token list \<Rightarrow> error + (range_item list \<times> token list)" where
  "range_list ts =
     (case range_or_value ts of
        Inl err \<Rightarrow> Inl err
      | Inr (item, ts1) \<Rightarrow>
          (case skip_token Symbol '','' ts1 of
             Some ts2 \<Rightarrow>
               (case range_list ts2 of
                  Inl err \<Rightarrow> Inl err
                | Inr (items, ts3) \<Rightarrow> Inr (item # items, ts3))
           | None \<Rightarrow> Inr ([item], ts1)))"
  by pat_completeness auto
termination
  by (relation "measure length")
     (auto simp: range_or_value_def value_p_def skip_token_def
           split: sum.splits option.splits list.splits if_splits)

declare range_list.simps [simp del]

definition operand_of :: "string \<Rightarrow> operand option" where
  "operand_of w =
     (if w = ''n'' then Some Op_n else if w = ''i'' then Some Op_i
      else if w = ''f'' then Some Op_f else if w = ''t'' then Some Op_t
      else if w = ''v'' then Some Op_v else if w = ''w'' then Some Op_w
      else if w = ''c'' then Some Op_c else if w = ''e'' then Some Op_e
      else None)"

definition expr_p :: "token list \<Rightarrow> error + (ast \<times> token list)" where
  "expr_p ts =
     (case ts of
        [] \<Rightarrow> Inl (RuleError (offending ts))
      | t # ts1 \<Rightarrow>
          (case (if fst t = Word then operand_of (snd t) else None) of
             None \<Rightarrow> Inl (RuleError (offending ts))
           | Some x \<Rightarrow>
               (case (case skip_token Word ''mod'' ts1 of
                        Some ts2 \<Rightarrow> Some ts2
                      | None \<Rightarrow> skip_token Symbol ''%'' ts1) of
                  Some ts2 \<Rightarrow>
                    (case value_p ts2 of
                       Inl err \<Rightarrow> Inl err
                     | Inr (k, ts3) \<Rightarrow> Inr (ModN (OperandN x) (ValueN k), ts3))
                | None \<Rightarrow> Inr (OperandN x, ts1))))"

definition with_value ::
  "(ast \<Rightarrow> ast) \<Rightarrow> token list \<Rightarrow> error + (ast \<times> token list)" where
  "with_value node ts =
     (case value_p ts of Inl err \<Rightarrow> Inl err | Inr (k, rest) \<Rightarrow> Inr (node (ValueN k), rest))"

definition with_range_list ::
  "(range_item list \<Rightarrow> ast) \<Rightarrow> token list \<Rightarrow> error + (ast \<times> token list)" where
  "with_range_list node ts =
     (case range_list ts of Inl err \<Rightarrow> Inl err | Inr (rl, rest) \<Rightarrow> Inr (node rl, rest))"

definition relation_p :: "token list \<Rightarrow> error + (ast \<times> token list)" where
  "relation_p ts =
     (case expr_p ts of
        Inl err \<Rightarrow> Inl err
      | Inr (left, ts1) \<Rightarrow>
          (case skip_token Word ''is'' ts1 of
             Some ts2 \<Rightarrow>
               (case skip_token Word ''not'' ts2 of
                  Some ts3 \<Rightarrow> with_value (IsNotN left) ts3
                | None \<Rightarrow> with_value (IsN left) ts2)
           | None \<Rightarrow>
               (case skip_token Word ''not'' ts1 of
                  Some ts2 \<Rightarrow>
                    (case skip_token Word ''in'' ts2 of
                       Some ts3 \<Rightarrow> with_range_list (NotInN left) ts3
                     | None \<Rightarrow>
                         (case skip_token Word ''within'' ts2 of
                            Some ts3 \<Rightarrow> with_range_list (NotWithinN left) ts3
                          | None \<Rightarrow> Inl (RuleError (offending ts2))))
                | None \<Rightarrow>
                    (case skip_token Word ''in'' ts1 of
                       Some ts2 \<Rightarrow> with_range_list (InN left) ts2
                     | None \<Rightarrow>
                    (case skip_token Symbol ''='' ts1 of
                       Some ts2 \<Rightarrow> with_range_list (InN left) ts2
                     | None \<Rightarrow>
                    (case skip_token Symbol ''!='' ts1 of
                       Some ts2 \<Rightarrow> with_range_list (NotInN left) ts2
                     | None \<Rightarrow>
                    (case skip_token Word ''within'' ts1 of
                       Some ts2 \<Rightarrow> with_range_list (WithinN left) ts2
                     | None \<Rightarrow> Inl (RuleError (offending ts1)))))))))"

text \<open>The repetition \<^verbatim>\<open>('and' relation)*\<close> after a first relation \<open>left\<close>. Its termination
  and that of \<open>or_loop\<close> are proved below, from the fact that a relation consumes a
  token.\<close>

function and_loop :: "ast \<Rightarrow> token list \<Rightarrow> error + (ast \<times> token list)" where
  "and_loop left ts =
     (case skip_token Word ''and'' ts of
        None \<Rightarrow> Inr (left, ts)
      | Some ts1 \<Rightarrow>
          (case relation_p ts1 of
             Inl err \<Rightarrow> Inl err
           | Inr (right, ts2) \<Rightarrow> and_loop (AndN left right) ts2))"
  by pat_completeness auto

definition and_condition :: "token list \<Rightarrow> error + (ast \<times> token list)" where
  "and_condition ts =
     (case relation_p ts of Inl err \<Rightarrow> Inl err | Inr (left, ts1) \<Rightarrow> and_loop left ts1)"

function or_loop :: "ast \<Rightarrow> token list \<Rightarrow> error + (ast \<times> token list)" where
  "or_loop left ts =
     (case skip_token Word ''or'' ts of
        None \<Rightarrow> Inr (left, ts)
      | Some ts1 \<Rightarrow>
          (case and_condition ts1 of
             Inl err \<Rightarrow> Inl err
           | Inr (right, ts2) \<Rightarrow> or_loop (OrN left right) ts2))"
  by pat_completeness auto

definition condition :: "token list \<Rightarrow> error + (ast \<times> token list)" where
  "condition ts =
     (case and_condition ts of Inl err \<Rightarrow> Inl err | Inr (left, ts1) \<Rightarrow> or_loop left ts1)"

text \<open>
  \<^verbatim>\<open>_Parser(string).ast\<close>, from the source (\<open>None\<close> is Python's \<^verbatim>\<open>None\<close>):
  \<^verbatim>\<open>
  self.tokens = tokenize_rule(string)
  if not self.tokens:
      self.ast = None
      return
  self.ast = self.condition()
  if self.tokens:
      raise RuleError(f'Expected end of rule, got {self.tokens[-1][1]!r}')
  \<close>
\<close>

definition Parser_ast :: "string \<Rightarrow> error + ast option" where
  "Parser_ast s =
     (case tokenize_rule s of
        Inl err \<Rightarrow> Inl err
      | Inr tokens \<Rightarrow>
          if tokens = [] then Inr None
          else (case condition tokens of
                  Inl err \<Rightarrow> Inl err
                | Inr (ast, rest) \<Rightarrow>
                    if rest \<noteq> [] then Inl (RuleError (snd (last rest)))
                    else Inr (Some ast)))"

subsection \<open>Compilers\<close>

text \<open>\<^verbatim>\<open>str(v)\<close> of a Python integer.\<close>

definition digit_char :: "nat \<Rightarrow> char" where
  "digit_char d = char_of (48 + d)"

fun str_nat :: "nat \<Rightarrow> string" where
  "str_nat n = (if n < 10 then [digit_char n] else str_nat (n div 10) @ [digit_char (n mod 10)])"

declare str_nat.simps [simp del]

definition str_int :: "int \<Rightarrow> string" where
  "str_int k = (if k < 0 then CHR ''-'' # str_nat (nat (- k)) else str_nat (nat k))"

text \<open>
  Python's \<^verbatim>\<open>tmpl % args\<close> for a template whose directives are \<^verbatim>\<open>%s\<close> and \<^verbatim>\<open>%%\<close> and a
  tuple of strings: too few or too many arguments raise \<^verbatim>\<open>TypeError\<close>, another
  directive raises \<^verbatim>\<open>ValueError\<close>.
\<close>

fun py_format :: "string \<Rightarrow> string list \<Rightarrow> error + string" where
  "py_format [] [] = Inr []"
| "py_format [] (a # as) = Inl TypeError"
| "py_format [c] args =
     (if c = CHR ''%'' then Inl ValueError_format
      else (case py_format [] args of Inl err \<Rightarrow> Inl err | Inr r \<Rightarrow> Inr (c # r)))"
| "py_format (c # d # ds) args =
     (if c \<noteq> CHR ''%'' then
        (case py_format (d # ds) args of Inl err \<Rightarrow> Inl err | Inr r \<Rightarrow> Inr (c # r))
      else if d = CHR ''%'' then
        (case py_format ds args of Inl err \<Rightarrow> Inl err | Inr r \<Rightarrow> Inr (CHR ''%'' # r))
      else if d = CHR ''s'' then
        (case args of
           [] \<Rightarrow> Inl TypeError
         | a # as \<Rightarrow> (case py_format ds as of Inl err \<Rightarrow> Inl err | Inr r \<Rightarrow> Inr (a @ r)))
      else Inl ValueError_format)"

text \<open>\<^verbatim>\<open>sep.join(parts)\<close>\<close>

fun join :: "string \<Rightarrow> string list \<Rightarrow> string" where
  "join sep [] = []"
| "join sep [x] = x"
| "join sep (x # y # ys) = x @ sep @ join sep (y # ys)"

text \<open>
  A compiler class is its table of handlers, the class attributes \<^verbatim>\<open>compile_*\<close>; a
  subclass is the table of its base with the entries it overrides. A handler for a
  node with children takes the compiled children.

  The source has no handler for the range relations (\<open>in\<close>, \<open>not_in\<close>, \<open>within\<close>,
  \<open>not_within\<close>): the entry \<open>compile_relation\<close> of the base table is a parameter \<open>rel\<close>,
  the text a backend writes for such a node from the compiled operand and the range
  list.
\<close>

datatype relation = R_in | R_not_in | R_within | R_not_within

record compiler =
  compile_n :: string
  compile_i :: string
  compile_v :: string
  compile_w :: string
  compile_f :: string
  compile_t :: string
  compile_c :: string
  compile_e :: string
  compile_value :: "int \<Rightarrow> string"
  compile_and :: "string \<Rightarrow> string \<Rightarrow> error + string"
  compile_or :: "string \<Rightarrow> string \<Rightarrow> error + string"
  compile_not :: "string \<Rightarrow> error + string"
  compile_mod :: "string \<Rightarrow> string \<Rightarrow> error + string"
  compile_is :: "string \<Rightarrow> string \<Rightarrow> error + string"
  compile_isnot :: "string \<Rightarrow> string \<Rightarrow> error + string"
  compile_relation :: "relation \<Rightarrow> string \<Rightarrow> range_item list \<Rightarrow> string"

text \<open>
  Modelled from the spec: the bodies of \<^verbatim>\<open>_binary_compiler\<close> and \<^verbatim>\<open>_unary_compiler\<close>
  (\<^verbatim>\<open>pass\<close> in the source, documented there as "Compiler factory for the _Compiler"):
  the handler fills the template with the compiled children, which gives the
  renderings of the specification (4.5), such as \<^verbatim>\<open>n mod 10 is 1\<close> for the template
  \<^verbatim>\<open>'%s is %s'\<close>.
\<close>

definition binary_compiler :: "string \<Rightarrow> string \<Rightarrow> string \<Rightarrow> error + string" where
  "binary_compiler tmpl left right = py_format tmpl [left, right]"

definition unary_compiler :: "string \<Rightarrow> string \<Rightarrow> error + string" where
  "unary_compiler tmpl x = py_format tmpl [x]"

text \<open>\<^verbatim>\<open>compile_zero = lambda x: '0'\<close>\<close>

definition compile_zero :: string where
  "compile_zero = ''0''"

text \<open>
  \<^verbatim>\<open>
  class _Compiler:
      compile_n = lambda x: 'n'
      ...
      compile_e = lambda x: 'e'
      compile_value = lambda x, v: str(v)
      compile_and = _binary_compiler('(%s && %s)')
      compile_or = _binary_compiler('(%s || %s)')
      compile_not = _unary_compiler('(!%s)')
      compile_mod = _binary_compiler('(%s %% %s)')
      compile_is = _binary_compiler('(%s == %s)')
      compile_isnot = _binary_compiler('(%s != %s)')
  \<close>
\<close>

definition Compiler :: "(relation \<Rightarrow> string \<Rightarrow> range_item list \<Rightarrow> string) \<Rightarrow> compiler" where
  "Compiler rel =
     \<lparr> compile_n = ''n'', compile_i = ''i'', compile_v = ''v'', compile_w = ''w'',
       compile_f = ''f'', compile_t = ''t'', compile_c = ''c'', compile_e = ''e'',
       compile_value = str_int,
       compile_and = binary_compiler ''(%s && %s)'',
       compile_or = binary_compiler ''(%s || %s)'',
       compile_not = unary_compiler ''(!%s)'',
       compile_mod = binary_compiler ''(%s %% %s)'',
       compile_is = binary_compiler ''(%s == %s)'',
       compile_isnot = binary_compiler ''(%s != %s)'',
       compile_relation = rel \<rparr>"

text \<open>
  \<^verbatim>\<open>
  class _PythonCompiler(_Compiler):
      compile_and = _binary_compiler('(%s and %s)')
      compile_or = _binary_compiler('(%s or %s)')
      compile_not = _unary_compiler('(not %s)')
      compile_mod = _binary_compiler('MOD(%s, %s)')
  \<close>
\<close>

definition PythonCompiler ::
  "(relation \<Rightarrow> string \<Rightarrow> range_item list \<Rightarrow> string) \<Rightarrow> compiler" where
  "PythonCompiler rel =
     (Compiler rel)
       \<lparr> compile_and := binary_compiler ''(%s and %s)'',
         compile_or := binary_compiler ''(%s or %s)'',
         compile_not := unary_compiler ''(not %s)'',
         compile_mod := binary_compiler ''MOD(%s, %s)'' \<rparr>"

text \<open>
  \<^verbatim>\<open>
  class _GettextCompiler(_Compiler):
      compile_i = _Compiler.compile_n
      compile_v = compile_zero
      compile_w = compile_zero
      compile_f = compile_zero
      compile_t = compile_zero
  \<close>
\<close>

definition GettextCompiler ::
  "(relation \<Rightarrow> string \<Rightarrow> range_item list \<Rightarrow> string) \<Rightarrow> compiler" where
  "GettextCompiler rel =
     (Compiler rel)
       \<lparr> compile_i := compile_n (Compiler rel),
         compile_v := compile_zero,
         compile_w := compile_zero,
         compile_f := compile_zero,
         compile_t := compile_zero \<rparr>"

text \<open>
  Modelled from the spec: the rendering of a range relation by the Unicode compiler,
  absent from the source. The specification (4.5): the AST is rendered back into the
  surface syntax, \<^verbatim>\<open>n in 1,11\<close>; a range is written \<^verbatim>\<open>low..high\<close> as in the grammar.
\<close>

fun range_text :: "range_item \<Rightarrow> string" where
  "range_text (Bare a) = str_int a"
| "range_text (Span a b) = str_int a @ ''..'' @ str_int b"

fun relation_word :: "relation \<Rightarrow> string" where
  "relation_word R_in = ''in''"
| "relation_word R_not_in = ''not in''"
| "relation_word R_within = ''within''"
| "relation_word R_not_within = ''not within''"

definition unicode_relation :: "relation \<Rightarrow> string \<Rightarrow> range_item list \<Rightarrow> string" where
  "unicode_relation r expr rl =
     expr @ '' '' @ relation_word r @ '' '' @ join '','' (map range_text rl)"

text \<open>
  \<^verbatim>\<open>
  class _UnicodeCompiler(_Compiler):
      compile_is = _binary_compiler('%s is %s')
      compile_isnot = _binary_compiler('%s is not %s')
      compile_and = _binary_compiler('%s and %s')
      compile_or = _binary_compiler('%s or %s')
      compile_mod = _binary_compiler('%s mod %s')
  \<close>
\<close>

definition UnicodeCompiler :: compiler where
  "UnicodeCompiler =
     (Compiler unicode_relation)
       \<lparr> compile_is := binary_compiler ''%s is %s'',
         compile_isnot := binary_compiler ''%s is not %s'',
         compile_and := binary_compiler ''%s and %s'',
         compile_or := binary_compiler ''%s or %s'',
         compile_mod := binary_compiler ''%s mod %s'' \<rparr>"

definition compile_operand :: "compiler \<Rightarrow> operand \<Rightarrow> string" where
  "compile_operand C x =
     (case x of Op_n \<Rightarrow> compile_n C | Op_i \<Rightarrow> compile_i C | Op_v \<Rightarrow> compile_v C
      | Op_w \<Rightarrow> compile_w C | Op_f \<Rightarrow> compile_f C | Op_t \<Rightarrow> compile_t C
      | Op_c \<Rightarrow> compile_c C | Op_e \<Rightarrow> compile_e C)"

definition apply2 ::
  "(string \<Rightarrow> string \<Rightarrow> error + string) \<Rightarrow> error + string \<Rightarrow> error + string \<Rightarrow> error + string"
  where
  "apply2 h l r =
     (case l of Inl err \<Rightarrow> Inl err
      | Inr a \<Rightarrow> (case r of Inl err \<Rightarrow> Inl err | Inr b \<Rightarrow> h a b))"

definition apply1 :: "(string \<Rightarrow> error + string) \<Rightarrow> error + string \<Rightarrow> error + string" where
  "apply1 h x = (case x of Inl err \<Rightarrow> Inl err | Inr a \<Rightarrow> h a)"

text \<open>
  Modelled from the spec: the method \<^verbatim>\<open>_Compiler.compile\<close>, absent from the source. The
  specification (3, 4.5): a pure function from the AST to a string, dispatched by node
  tag to the handler of the backend's table.
\<close>

fun compile :: "compiler \<Rightarrow> ast \<Rightarrow> error + string" where
  "compile C (ValueN v) = Inr (compile_value C v)"
| "compile C (OperandN x) = Inr (compile_operand C x)"
| "compile C (ModN a b) = apply2 (compile_mod C) (compile C a) (compile C b)"
| "compile C (IsN a b) = apply2 (compile_is C) (compile C a) (compile C b)"
| "compile C (IsNotN a b) = apply2 (compile_isnot C) (compile C a) (compile C b)"
| "compile C (AndN a b) = apply2 (compile_and C) (compile C a) (compile C b)"
| "compile C (OrN a b) = apply2 (compile_or C) (compile C a) (compile C b)"
| "compile C (NotN a) = apply1 (compile_not C) (compile C a)"
| "compile C (InN e rl) =
     apply1 (\<lambda>x. Inr (compile_relation C R_in x rl)) (compile C e)"
| "compile C (NotInN e rl) =
     apply1 (\<lambda>x. Inr (compile_relation C R_not_in x rl)) (compile C e)"
| "compile C (WithinN e rl) =
     apply1 (\<lambda>x. Inr (compile_relation C R_within x rl)) (compile C e)"
| "compile C (NotWithinN e rl) =
     apply1 (\<lambda>x. Inr (compile_relation C R_not_within x rl)) (compile C e)"

subsection \<open>Operands\<close>

text \<open>
  Modelled from the spec: the function \<^verbatim>\<open>extract_operands\<close>, whose body in the source is
  \<^verbatim>\<open>pass\<close>. The specification (4.1): \<open>n\<close> is the absolute value of the input as an
  exact decimal, \<open>i\<close> the integer part of \<open>n\<close>, \<open>v\<close> the count of digits after the
  decimal point including trailing zeros (as originally represented), \<open>w\<close> that count
  excluding trailing zeros, \<open>f\<close> the fractional digits as an integer including trailing
  zeros, \<open>t\<close> excluding them, \<open>c\<close> and \<open>e\<close> are 0; a float is first converted through
  its decimal string. An integer \<open>k\<close> is the decimal \<open>k\<close> with exponent 0.
\<close>

type_synonym operands = "decimal \<times> int \<times> int \<times> int \<times> int \<times> int \<times> int \<times> int"

fun source_decimal :: "number \<Rightarrow> decimal" where
  "source_decimal (PyInt k) = Decimal k 0"
| "source_decimal (PyFloat d) = d"
| "source_decimal (PyDecimal d) = d"

text \<open>\<open>strip_trailing_zeros v f\<close>: from the \<open>v\<close> fractional digits \<open>f\<close>, the count and
  the digits that are left without the trailing zeros.\<close>

fun strip_trailing_zeros :: "nat \<Rightarrow> int \<Rightarrow> nat \<times> int" where
  "strip_trailing_zeros 0 f = (0, f)"
| "strip_trailing_zeros (Suc v) f =
     (if f mod 10 = 0 then strip_trailing_zeros v (f div 10) else (Suc v, f))"

definition extract_operands :: "number \<Rightarrow> operands" where
  "extract_operands source =
     (let d = source_decimal source;
          c = \<bar>coefficient d\<bar>;
          n = Decimal c (exponent d);
          v = (if exponent d < 0 then nat (- exponent d) else 0);
          i = (if exponent d < 0 then c div 10 ^ v else c * 10 ^ nat (exponent d));
          f = (if exponent d < 0 then c mod 10 ^ v else 0);
          (w, t) = strip_trailing_zeros v f
      in (n, i, int v, int w, f, t, 0, 0))"

subsection \<open>PluralRule\<close>

text \<open>\<^verbatim>\<open>_plural_tags = ('zero', 'one', 'two', 'few', 'many', 'other')\<close>\<close>

definition plural_tags :: "string list" where
  "plural_tags = [''zero'', ''one'', ''two'', ''few'', ''many'', ''other'']"

text \<open>
  A \<^verbatim>\<open>PluralRule\<close> object has the slots \<^verbatim>\<open>abstract\<close> and \<^verbatim>\<open>_func\<close>; \<open>func\<close> is \<open>None\<close>
  while the attribute \<^verbatim>\<open>_func\<close> is not set. Objects live in a heap, a list indexed by
  their addresses, so that "the same object" is "the same address". A reference that a
  Python program holds is the address of an object of the heap (\<open>a < length h\<close>).
\<close>

record plural_rule =
  abstract :: "(string \<times> ast) list"
  func :: "(number \<Rightarrow> error + string) option"

type_synonym heap = "plural_rule list"

text \<open>
  The argument \<^verbatim>\<open>rules\<close>: a \<^verbatim>\<open>PluralRule\<close> object (its address), a mapping (given by its
  \<^verbatim>\<open>items()\<close>) or a sequence of \<^verbatim>\<open>(tag, expr)\<close> pairs.
\<close>

datatype rules =
    RuleObject nat
  | RuleMapping "(string \<times> string) list"
  | RulePairs "(string \<times> string) list"

text \<open>
  \<^verbatim>\<open>
  found = set()
  self.abstract = []
  for key, expr in sorted(rules):
      if key not in _plural_tags:
          raise ValueError(f'unknown tag {key!r}')
      elif key in found:
          raise ValueError(f'tag {key!r} defined twice')
      found.add(key)
      ast = _Parser(expr).ast
      if ast:
          self.abstract.append((key, ast))
  \<close>
  \<open>stored\<close> is \<^verbatim>\<open>self.abstract\<close> so far. \<^verbatim>\<open>sorted\<close> orders the pairs by tag, then by
  expression, each string by its characters: the order of \<open>sort\<close> on pairs of strings.
\<close>

fun init_loop ::
  "string set \<Rightarrow> (string \<times> ast) list \<Rightarrow> (string \<times> string) list \<Rightarrow> error + (string \<times> ast) list"
  where
  "init_loop found stored [] = Inr stored"
| "init_loop found stored ((key, expr) # rest) =
     (if key \<notin> set plural_tags then Inl (ValueError_unknown_tag key)
      else if key \<in> found then Inl (ValueError_defined_twice key)
      else (case Parser_ast expr of
              Inl err \<Rightarrow> Inl err
            | Inr ast \<Rightarrow>
                init_loop (insert key found)
                  (case ast of None \<Rightarrow> stored | Some a \<Rightarrow> stored @ [(key, a)]) rest))"

text \<open>\<^verbatim>\<open>PluralRule.__init__\<close>: the fields of the new object, or the exception. A
  \<^verbatim>\<open>PluralRule\<close> is not iterable, so \<^verbatim>\<open>sorted\<close> raises \<^verbatim>\<open>TypeError\<close> on one.\<close>

definition PluralRule_init :: "rules \<Rightarrow> error + plural_rule" where
  "PluralRule_init rules =
     (case (case rules of
              RuleMapping items \<Rightarrow> Inr items
            | RulePairs pairs \<Rightarrow> Inr pairs
            | RuleObject a \<Rightarrow> Inl TypeError) of
        Inl err \<Rightarrow> Inl err
      | Inr pairs \<Rightarrow>
          (case init_loop {} [] (sort pairs) of
             Inl err \<Rightarrow> Inl err
           | Inr stored \<Rightarrow> Inr \<lparr> abstract = stored, func = None \<rparr>))"

text \<open>The call \<^verbatim>\<open>cls(rules)\<close>: a new object at a fresh address, when \<^verbatim>\<open>__init__\<close> returns.\<close>

definition PluralRule_new :: "heap \<Rightarrow> rules \<Rightarrow> error + (nat \<times> heap)" where
  "PluralRule_new h rules =
     (case PluralRule_init rules of
        Inl err \<Rightarrow> Inl err
      | Inr obj \<Rightarrow> Inr (length h, h @ [obj]))"

text \<open>
  \<^verbatim>\<open>
  if isinstance(rules, PluralRule):
      return rules
  return cls(rules)
  \<close>
\<close>

definition PluralRule_parse :: "heap \<Rightarrow> rules \<Rightarrow> error + (nat \<times> heap)" where
  "PluralRule_parse h rules =
     (case rules of RuleObject a \<Rightarrow> Inr (a, h) | _ \<Rightarrow> PluralRule_new h rules)"

text \<open>The first lines of \<^verbatim>\<open>to_python\<close> and \<^verbatim>\<open>to_gettext\<close>, and the object they go on with:
  \<^verbatim>\<open>
  if not isinstance(rule, PluralRule):
      rule = PluralRule.parse(rule)
  \<close>
\<close>

definition as_PluralRule :: "heap \<Rightarrow> rules \<Rightarrow> error + plural_rule" where
  "as_PluralRule h rule =
     (case rule of
        RuleObject a \<Rightarrow> Inr (h ! a)
      | _ \<Rightarrow> (case PluralRule_parse h rule of
                Inl err \<Rightarrow> Inl err
              | Inr (a, h') \<Rightarrow> Inr (h' ! a)))"

text \<open>A Python dict as the list of its items in insertion order; \<^verbatim>\<open>d[k] = v\<close>.\<close>

fun dict_set :: "'k \<Rightarrow> 'v \<Rightarrow> ('k \<times> 'v) list \<Rightarrow> ('k \<times> 'v) list" where
  "dict_set k v [] = [(k, v)]"
| "dict_set k v ((k', v') # d) = (if k = k' then (k, v) # d else (k', v') # dict_set k v d)"

text \<open>The property \<^verbatim>\<open>rules\<close>:
  \<^verbatim>\<open>return {tag: _UnicodeCompiler().compile(ast) for tag, ast in self.abstract}\<close>\<close>

fun rules_loop ::
  "(string \<times> string) list \<Rightarrow> (string \<times> ast) list \<Rightarrow> error + (string \<times> string) list" where
  "rules_loop d [] = Inr d"
| "rules_loop d ((tag, ast) # rest) =
     (case compile UnicodeCompiler ast of
        Inl err \<Rightarrow> Inl err
      | Inr expr \<Rightarrow> rules_loop (dict_set tag expr d) rest)"

definition PluralRule_rules :: "plural_rule \<Rightarrow> error + (string \<times> string) list" where
  "PluralRule_rules self = rules_loop [] (abstract self)"

text \<open>The property \<^verbatim>\<open>tags\<close>: \<^verbatim>\<open>return frozenset(tag for tag, _ in self.abstract)\<close>\<close>

definition PluralRule_tags :: "plural_rule \<Rightarrow> string set" where
  "PluralRule_tags self = set (map fst (abstract self))"

subsection \<open>The Python function of a rule\<close>

definition newline :: char where
  "newline = CHR 0x0A"

definition quote :: char where
  "quote = CHR 0x27"

text \<open>
  \<^verbatim>\<open>
  parts = []
  for tag, ast in rule.abstract:
      expr = compiler.compile(ast)
      parts.append(f"if {expr}: return '{tag}'")
  parts.append("return 'other'")
  \<close>
\<close>

fun python_parts :: "compiler \<Rightarrow> (string \<times> ast) list \<Rightarrow> error + string list" where
  "python_parts C [] = Inr [''return '' @ [quote] @ ''other'' @ [quote]]"
| "python_parts C ((tag, ast) # rest) =
     (case compile C ast of
        Inl err \<Rightarrow> Inl err
      | Inr expr \<Rightarrow>
          (case python_parts C rest of
             Inl err \<Rightarrow> Inl err
           | Inr parts \<Rightarrow>
               Inr ((''if '' @ expr @ '': return '' @ [quote] @ tag @ [quote]) # parts)))"

text \<open>
  The text given to \<^verbatim>\<open>exec\<close>:
  \<^verbatim>\<open>
  code = '\n'.join(parts)
  f"def plural(n):\n    n, i, v, w, f, t, c, e = extract_operands(n)\n    {code}"
  \<close>
\<close>

definition python_source :: "string list \<Rightarrow> string" where
  "python_source parts =
     ''def plural(n):'' @ [newline] @
     ''    n, i, v, w, f, t, c, e = extract_operands(n)'' @ [newline] @
     ''    '' @ join [newline] parts"

fun split_lines :: "string \<Rightarrow> string list" where
  "split_lines [] = [[]]"
| "split_lines (c # cs) =
     (if c = newline then [] # split_lines cs
      else (case split_lines cs of [] \<Rightarrow> [[c]] | l # ls \<Rightarrow> (c # l) # ls))"

text \<open>
  What \<^verbatim>\<open>exec\<close> does with that text. Each line after the first is a statement that
  holds a \<^verbatim>\<open>return\<close>; only an indented line belongs to the body of \<^verbatim>\<open>plural\<close>, and
  Python refuses a \<^verbatim>\<open>return\<close> outside a function with \<^verbatim>\<open>SyntaxError\<close> when it compiles
  the text. So the text is accepted when every line after the first is indented.
\<close>

definition exec_accepts :: "string \<Rightarrow> bool" where
  "exec_accepts src = list_all (\<lambda>l. take 1 l = '' '') (tl (split_lines src))"

text \<open>
  The function an accepted text defines: the operands of \<open>n\<close>, then the tag of the first
  condition that is true, \<^verbatim>\<open>'other'\<close> when none is. The source does not have the Python
  compiler's text for a range relation, so the value Python computes for a compiled
  condition is a parameter \<open>ev\<close>.
\<close>

fun first_true ::
  "(ast \<Rightarrow> operands \<Rightarrow> error + bool) \<Rightarrow> operands \<Rightarrow> (string \<times> ast) list \<Rightarrow> error + string"
  where
  "first_true ev ops [] = Inr ''other''"
| "first_true ev ops ((tag, ast) # rest) =
     (case ev ast ops of
        Inl err \<Rightarrow> Inl err
      | Inr b \<Rightarrow> if b then Inr tag else first_true ev ops rest)"

definition plural ::
  "(ast \<Rightarrow> operands \<Rightarrow> error + bool) \<Rightarrow> (string \<times> ast) list \<Rightarrow> number \<Rightarrow> error + string"
  where
  "plural ev stored n = first_true ev (extract_operands n) stored"

text \<open>
  \<^verbatim>\<open>
  compiler = _PythonCompiler()
  ...
  namespace = {'MOD': cldr_modulo, 'extract_operands': extract_operands}
  exec(f"def plural(n):\n    n, i, v, w, f, t, c, e = extract_operands(n)\n    {code}", namespace)
  return namespace['plural']
  \<close>
\<close>

definition to_python ::
  "(ast \<Rightarrow> operands \<Rightarrow> error + bool) \<Rightarrow>
   (relation \<Rightarrow> string \<Rightarrow> range_item list \<Rightarrow> string) \<Rightarrow>
   heap \<Rightarrow> rules \<Rightarrow> error + (number \<Rightarrow> error + string)" where
  "to_python ev rel h rule =
     (case as_PluralRule h rule of
        Inl err \<Rightarrow> Inl err
      | Inr r \<Rightarrow>
          (case python_parts (PythonCompiler rel) (abstract r) of
             Inl err \<Rightarrow> Inl err
           | Inr parts \<Rightarrow>
               if exec_accepts (python_source parts) then Inr (plural ev (abstract r))
               else Inl SyntaxError))"

text \<open>
  \<^verbatim>\<open>
  def __call__(self, n):
      if not hasattr(self, '_func'):
          self._func = to_python(self)
      return self._func(n)
  \<close>
  The result and the heap after the call.
\<close>

definition PluralRule_call ::
  "(ast \<Rightarrow> operands \<Rightarrow> error + bool) \<Rightarrow>
   (relation \<Rightarrow> string \<Rightarrow> range_item list \<Rightarrow> string) \<Rightarrow>
   heap \<Rightarrow> nat \<Rightarrow> number \<Rightarrow> (error + string) \<times> heap" where
  "PluralRule_call ev rel h self n =
     (case func (h ! self) of
        Some f \<Rightarrow> (f n, h)
      | None \<Rightarrow>
          (case to_python ev rel h (RuleObject self) of
             Inl err \<Rightarrow> (Inl err, h)
           | Inr f \<Rightarrow> (f n, h[self := (h ! self)\<lparr>func := Some f\<rparr>])))"

subsection \<open>The gettext expression of a rule\<close>

text \<open>
  \<^verbatim>\<open>
  compiler = _GettextCompiler()
  parts = []
  for idx, (tag, ast) in enumerate(rule.abstract):
      expr = compiler.compile(ast)
      parts.append(f"({expr}) ? {idx} : ")
  parts.append(str(len(rule.abstract)))
  plural_expr = ''.join(parts)
  return f"nplurals={len(rule.abstract) + 1}; plural=({plural_expr});"
  \<close>
\<close>

fun gettext_parts :: "compiler \<Rightarrow> nat \<Rightarrow> (string \<times> ast) list \<Rightarrow> error + string list" where
  "gettext_parts C idx [] = Inr []"
| "gettext_parts C idx ((tag, ast) # rest) =
     (case compile C ast of
        Inl err \<Rightarrow> Inl err
      | Inr expr \<Rightarrow>
          (case gettext_parts C (Suc idx) rest of
             Inl err \<Rightarrow> Inl err
           | Inr parts \<Rightarrow> Inr ((''('' @ expr @ '') ? '' @ str_nat idx @ '' : '') # parts)))"

definition to_gettext ::
  "(relation \<Rightarrow> string \<Rightarrow> range_item list \<Rightarrow> string) \<Rightarrow> heap \<Rightarrow> rules \<Rightarrow> error + string"
  where
  "to_gettext rel h rule =
     (case as_PluralRule h rule of
        Inl err \<Rightarrow> Inl err
      | Inr r \<Rightarrow>
          (case gettext_parts (GettextCompiler rel) 0 (abstract r) of
             Inl err \<Rightarrow> Inl err
           | Inr parts \<Rightarrow>
               Inr (''nplurals='' @ str_nat (length (abstract r) + 1) @ ''; plural=('' @
                    concat (parts @ [str_nat (length (abstract r))]) @ '');'')))"

subsection \<open>Trees of the grammar and their text\<close>

text \<open>
  The trees the grammar can produce: a condition is a chain of \<open>or\<close> nested to the left
  over chains of \<open>and\<close> nested to the left over relations; a relation is over an
  operand, with an optional modulus, and a value or a non-empty range list; literal values
  are non-negative.
\<close>

fun wf_range :: "range_item \<Rightarrow> bool" where
  "wf_range (Bare a) = (0 \<le> a)"
| "wf_range (Span a b) = (0 \<le> a \<and> 0 \<le> b)"

fun wf_expr :: "ast \<Rightarrow> bool" where
  "wf_expr (OperandN x) = True"
| "wf_expr (ModN (OperandN x) (ValueN k)) = (0 \<le> k)"
| "wf_expr _ = False"

fun wf_relation :: "ast \<Rightarrow> bool" where
  "wf_relation (IsN e (ValueN k)) = (wf_expr e \<and> 0 \<le> k)"
| "wf_relation (IsNotN e (ValueN k)) = (wf_expr e \<and> 0 \<le> k)"
| "wf_relation (InN e rl) = (wf_expr e \<and> rl \<noteq> [] \<and> list_all wf_range rl)"
| "wf_relation (NotInN e rl) = (wf_expr e \<and> rl \<noteq> [] \<and> list_all wf_range rl)"
| "wf_relation (WithinN e rl) = (wf_expr e \<and> rl \<noteq> [] \<and> list_all wf_range rl)"
| "wf_relation (NotWithinN e rl) = (wf_expr e \<and> rl \<noteq> [] \<and> list_all wf_range rl)"
| "wf_relation _ = False"

fun wf_and_condition :: "ast \<Rightarrow> bool" where
  "wf_and_condition (AndN l r) = (wf_and_condition l \<and> wf_relation r)"
| "wf_and_condition a = wf_relation a"

fun wf_condition :: "ast \<Rightarrow> bool" where
  "wf_condition (OrN l r) = (wf_condition l \<and> wf_and_condition r)"
| "wf_condition a = wf_and_condition a"

text \<open>The text of a tree in the surface syntax, and its tokens.\<close>

fun operand_name :: "operand \<Rightarrow> string" where
  "operand_name Op_n = ''n''"
| "operand_name Op_i = ''i''"
| "operand_name Op_v = ''v''"
| "operand_name Op_w = ''w''"
| "operand_name Op_f = ''f''"
| "operand_name Op_t = ''t''"
| "operand_name Op_c = ''c''"
| "operand_name Op_e = ''e''"

definition range_list_text :: "range_item list \<Rightarrow> string" where
  "range_list_text rl = join '','' (map range_text rl)"

fun unparse :: "ast \<Rightarrow> string" where
  "unparse (ValueN k) = str_int k"
| "unparse (OperandN x) = operand_name x"
| "unparse (ModN a b) = unparse a @ '' mod '' @ unparse b"
| "unparse (IsN a b) = unparse a @ '' is '' @ unparse b"
| "unparse (IsNotN a b) = unparse a @ '' is not '' @ unparse b"
| "unparse (InN e rl) = unparse e @ '' in '' @ range_list_text rl"
| "unparse (NotInN e rl) = unparse e @ '' not in '' @ range_list_text rl"
| "unparse (WithinN e rl) = unparse e @ '' within '' @ range_list_text rl"
| "unparse (NotWithinN e rl) = unparse e @ '' not within '' @ range_list_text rl"
| "unparse (AndN a b) = unparse a @ '' and '' @ unparse b"
| "unparse (OrN a b) = unparse a @ '' or '' @ unparse b"
| "unparse (NotN a) = ''(!'' @ unparse a @ '')''"

fun range_tokens :: "range_item \<Rightarrow> token list" where
  "range_tokens (Bare a) = [(ValueT, str_int a)]"
| "range_tokens (Span a b) = [(ValueT, str_int a), (Ellipsis, ''..''), (ValueT, str_int b)]"

fun range_list_tokens :: "range_item list \<Rightarrow> token list" where
  "range_list_tokens [] = []"
| "range_list_tokens [r] = range_tokens r"
| "range_list_tokens (r # r' # rs) =
     range_tokens r @ (Symbol, '','') # range_list_tokens (r' # rs)"

fun tokens_of :: "ast \<Rightarrow> token list" where
  "tokens_of (ValueN k) = [(ValueT, str_int k)]"
| "tokens_of (OperandN x) = [(Word, operand_name x)]"
| "tokens_of (ModN a b) = tokens_of a @ (Word, ''mod'') # tokens_of b"
| "tokens_of (IsN a b) = tokens_of a @ (Word, ''is'') # tokens_of b"
| "tokens_of (IsNotN a b) = tokens_of a @ (Word, ''is'') # (Word, ''not'') # tokens_of b"
| "tokens_of (InN e rl) = tokens_of e @ (Word, ''in'') # range_list_tokens rl"
| "tokens_of (NotInN e rl) = tokens_of e @ (Word, ''not'') # (Word, ''in'') # range_list_tokens rl"
| "tokens_of (WithinN e rl) = tokens_of e @ (Word, ''within'') # range_list_tokens rl"
| "tokens_of (NotWithinN e rl) =
     tokens_of e @ (Word, ''not'') # (Word, ''within'') # range_list_tokens rl"
| "tokens_of (AndN a b) = tokens_of a @ (Word, ''and'') # tokens_of b"
| "tokens_of (OrN a b) = tokens_of a @ (Word, ''or'') # tokens_of b"
| "tokens_of (NotN a) = []"

text \<open>Two notions for the lemmas about the parser and the tokenizer: the tokens \<open>rest\<close>
  that follow a range list do not continue it, and the tokens \<open>toks\<close> put before the
  result of tokenizing what follows.\<close>

definition no_range_follow :: "token list \<Rightarrow> bool" where
  "no_range_follow rest =
     (skip_token Ellipsis ''..'' rest = None \<and> skip_token Symbol '','' rest = None)"

definition then_tokens :: "token list \<Rightarrow> error + token list \<Rightarrow> error + token list" where
  "then_tokens toks r = (case r of Inl err \<Rightarrow> Inl err | Inr ts \<Rightarrow> Inr (toks @ ts))"

text \<open>Every value token is made of digits, as the tokenizer produces them.\<close>

definition digit_tokens :: "token list \<Rightarrow> bool" where
  "digit_tokens ts = list_all (\<lambda>t. if fst t = ValueT then list_all is_digit (snd t) else True) ts"

section \<open>Properties\<close>

subsection \<open>Termination of the parser\<close>

lemma skip_token_length: "skip_token ty w us = Some r \<Longrightarrow> length r < length us"
  by (auto simp: skip_token_def split: list.splits if_splits)

lemma value_p_length: "value_p us = Inr (k, r) \<Longrightarrow> length r < length us"
  by (auto simp: value_p_def split: list.splits if_splits)

lemma range_or_value_length: "range_or_value us = Inr (item, r) \<Longrightarrow> length r < length us"
  by (auto simp: range_or_value_def split: sum.splits option.splits
        dest!: value_p_length skip_token_length)

lemma range_list_length: "range_list us = Inr (rl, r) \<Longrightarrow> length r < length us"
proof (induction us arbitrary: rl r rule: range_list.induct)
  case (1 us)
  from "1.prems" obtain item us1 where item: "range_or_value us = Inr (item, us1)"
    by (subst (asm) range_list.simps) (auto split: sum.splits)
  then have len1: "length us1 < length us"
    by (rule range_or_value_length)
  show ?case
  proof (cases "skip_token Symbol '','' us1")
    case None
    with "1.prems" item len1 show ?thesis
      by (subst (asm) range_list.simps) auto
  next
    case (Some us2)
    with "1.prems" item obtain items where rec: "range_list us2 = Inr (items, r)"
      by (subst (asm) range_list.simps) (auto split: sum.splits)
    from "1.IH" [OF item refl Some rec] have "length r < length us2" .
    with skip_token_length [OF Some] len1 show ?thesis by simp
  qed
qed

lemma expr_p_length: "expr_p us = Inr (e, r) \<Longrightarrow> length r < length us"
proof (cases us)
  case Nil
  assume "expr_p us = Inr (e, r)"
  with Nil show ?thesis by (simp add: expr_p_def)
next
  case (Cons t us1)
  assume "expr_p us = Inr (e, r)"
  with Cons show ?thesis
    by (auto simp: expr_p_def split: option.splits sum.splits if_splits
          dest!: value_p_length skip_token_length)
qed

lemma with_value_length: "with_value node us = Inr (a, r) \<Longrightarrow> length r < length us"
  by (auto simp: with_value_def split: sum.splits dest!: value_p_length)

lemma with_range_list_length:
  "with_range_list node us = Inr (a, r) \<Longrightarrow> length r < length us"
  by (auto simp: with_range_list_def split: sum.splits dest!: range_list_length)

lemma relation_p_length:
  assumes "relation_p us = Inr (a, r)"
  shows "length r < length us"
proof -
  from assms obtain left us' where e: "expr_p us = Inr (left, us')"
    and "length r \<le> length us'"
    unfolding relation_p_def
    by (fastforce split: sum.splits option.splits
          dest!: with_value_length with_range_list_length skip_token_length)
  with expr_p_length [OF e] show ?thesis
    by simp
qed

termination and_loop
proof (relation "measure (\<lambda>(left, ts). length ts)")
  show "wf (measure (\<lambda>(left, ts). length ts))"
    by simp
next
  fix left :: ast and ts ts1 :: "token list" and x2 :: "ast \<times> token list"
    and right :: ast and ts2 :: "token list"
  assume "skip_token Word ''and'' ts = Some ts1"
    and "relation_p ts1 = Inr x2" and "(right, ts2) = x2"
  then show "((AndN left right, ts2), (left, ts)) \<in> measure (\<lambda>(left, ts). length ts)"
    by (auto dest!: skip_token_length relation_p_length)
qed

declare and_loop.simps [simp del]

lemma and_loop_length: "and_loop left us = Inr (a, r) \<Longrightarrow> length r \<le> length us"
proof (induction left us arbitrary: a r rule: and_loop.induct)
  case (1 left ts)
  show ?case
  proof (cases "skip_token Word ''and'' ts")
    case None
    with "1.prems" show ?thesis
      by (subst (asm) and_loop.simps) simp
  next
    case (Some ts1)
    with "1.prems" obtain right ts2 where rel: "relation_p ts1 = Inr (right, ts2)"
      and rec: "and_loop (AndN left right) ts2 = Inr (a, r)"
      by (subst (asm) and_loop.simps) (auto split: sum.splits)
    from "1.IH" [OF Some rel refl rec] have "length r \<le> length ts2" .
    with skip_token_length [OF Some] relation_p_length [OF rel] show ?thesis
      by simp
  qed
qed

lemma and_condition_length: "and_condition us = Inr (a, r) \<Longrightarrow> length r < length us"
  by (auto simp: and_condition_def split: sum.splits
        dest!: relation_p_length and_loop_length)

termination or_loop
proof (relation "measure (\<lambda>(left, ts). length ts)")
  show "wf (measure (\<lambda>(left, ts). length ts))"
    by simp
next
  fix left :: ast and ts ts1 :: "token list" and x2 :: "ast \<times> token list"
    and right :: ast and ts2 :: "token list"
  assume "skip_token Word ''or'' ts = Some ts1"
    and "and_condition ts1 = Inr x2" and "(right, ts2) = x2"
  then show "((OrN left right, ts2), (left, ts)) \<in> measure (\<lambda>(left, ts). length ts)"
    by (auto dest!: skip_token_length and_condition_length)
qed

declare or_loop.simps [simp del]


subsection \<open>Range and modulo primitives\<close>

lemma nonneg_mod_range: "b \<noteq> 0 \<Longrightarrow> 0 \<le> nonneg_mod a b \<and> nonneg_mod a b < \<bar>b\<bar>"
  by (simp add: nonneg_mod_def)

lemma cldr_modulo_floored: "b \<noteq> 0 \<Longrightarrow> cldr_modulo a b = Inr (a mod b)"
  by (simp add: cldr_modulo_def py_mod_def)




subsection \<open>Range lists\<close>

lemma dec_to_integral_value_fixed:
  "dec_value (dec_to_integral_value d) = dec_value d \<longleftrightarrow> dec_value d \<in> \<int>"
proof (cases d)
  case (Decimal c e)
  show ?thesis
  proof (cases "0 \<le> e")
    case True
    with Decimal show ?thesis by simp
  next
    case False
    define p :: int where "p = 10 ^ nat (- e)"
    define q where "q = c div p"
    define r where "r = c mod p"
    have p: "0 < p" by (simp add: p_def)
    have c: "c = q * p + r" by (simp add: q_def r_def)
    have r: "0 \<le> r" "r < p" using p by (simp_all add: r_def)
    define q' where
      "q' = (if 2 * r < p then q else if p < 2 * r then q + 1 else if even q then q else q + 1)"
    have tiv: "dec_to_integral_value d = Decimal q' 0"
      using False Decimal by (simp add: Let_def p_def q_def r_def q'_def)
    have val: "dec_value d = of_int c / of_int p"
      using False Decimal by (simp add: p_def)
    have eq: "(of_int q' :: rat) = of_int c / of_int p \<longleftrightarrow> q' * p = c"
      using p by (simp add: field_simps flip: of_int_mult)
    show ?thesis
    proof
      assume "dec_value (dec_to_integral_value d) = dec_value d"
      then have "dec_value d = of_int q'" by (simp add: tiv)
      then show "dec_value d \<in> \<int>" by simp
    next
      assume "dec_value d \<in> \<int>"
      then obtain z :: int where z: "of_int c / of_int p = (of_int z :: rat)"
        by (auto simp: val elim: Ints_cases)
      then have "c = z * p" using p by (simp add: field_simps flip: of_int_mult)
      then have "r = 0" by (simp add: r_def)
      then have "q' = q" "q * p = c" using p c by (simp_all add: q'_def)
      then show "dec_value (dec_to_integral_value d) = dec_value d"
        using eq by (simp add: tiv val)
    qed
  qed
qed

text \<open>For a decimal, and so for a float, \<^verbatim>\<open>in_range_list\<close> and \<^verbatim>\<open>within_range_list\<close> are
  what they are documented to be.\<close>

lemma in_range_loop_decimal:
  "in_range_loop (PyDecimal d) rs =
     Inr ((\<exists>x. Bare x \<in> set rs \<and> dec_value d = of_int x) \<or>
          (\<exists>s e. Span s e \<in> set rs \<and> of_int s \<le> dec_value d \<and> dec_value d \<le> of_int e
                 \<and> dec_value d \<in> \<int>))"
proof (induction rs)
  case Nil
  show ?case by simp
next
  case (Cons r rs)
  show ?case
  proof (cases r)
    case (Bare x)
    with Cons show ?thesis by auto
  next
    case (Span s e)
    with Cons show ?thesis by (auto simp: dec_to_integral_value_fixed)
  qed
qed

lemma in_range_list_float:
  "in_range_list (PyFloat d) rs = in_range_list (PyDecimal d) rs"
  by (simp add: in_range_list_def)

lemma within_range_loop_iff:
  "within_range_loop num rs \<longleftrightarrow>
     (\<exists>x. Bare x \<in> set rs \<and> num_value num = of_int x) \<or>
     (\<exists>s e. Span s e \<in> set rs \<and> of_int s \<le> num_value num \<and> num_value num \<le> of_int e)"
proof (induction rs)
  case Nil
  show ?case by simp
next
  case (Cons r rs)
  then show ?case by (cases r) auto
qed

lemma range_list_examples:
  "in_range_list (PyFloat (Decimal 12 (- 1))) [Span 1 4] = Inr False"
  "within_range_list (PyFloat (Decimal 12 (- 1))) [Span 1 4]"
  "in_range_list (PyInt 10) [Span 1 4] = Inr False"
  "in_range_list (PyDecimal (Decimal 1 0)) [Span 1 3] = Inr True"
  by (simp_all add: in_range_list_def within_range_list_def)

text \<open>
  C3: \<^verbatim>\<open>in_range_list(num, rs)\<close> is true iff \<open>num\<close> equals a bare entry of \<open>rs\<close> or lies
  within a pair of \<open>rs\<close> and has no fractional part, and \<^verbatim>\<open>in_range_list(1, [(1, 3)])\<close>
  is \<open>True\<close> for the integer 1. On the code that call raises: an integer within a
  pair reaches \<^verbatim>\<open>num.to_integral_value()\<close>, and a Python \<^verbatim>\<open>int\<close> has no such method.
\<close>

theorem in_range_list_int_in_pair_raises:
  "in_range_list (PyInt 1) [Span 1 3] = Inl (AttributeError ''to_integral_value'')"
  by (simp add: in_range_list_def)

subsection \<open>Evaluation of the examples\<close>

lemma parse_n_is_1: "Parser_ast ''n is 1'' = Inr (Some (IsN (OperandN Op_n) (ValueN 1)))"
  by code_simp

lemma parse_n_is_2: "Parser_ast ''n is 2'' = Inr (Some (IsN (OperandN Op_n) (ValueN 2)))"
  by code_simp


lemma parse_n_in_1_11:
  "Parser_ast ''n in 1,11'' = Inr (Some (InN (OperandN Op_n) [Bare 1, Bare 11]))"
  by code_simp

lemma parse_n_in_3_19:
  "Parser_ast ''n in 3..10,13..19'' = Inr (Some (InN (OperandN Op_n) [Span 3 10, Span 13 19]))"
  by code_simp

lemma parse_blank: "Parser_ast ''  '' = Inr None"
  by code_simp

lemma tag_memberships:
  "''zero'' \<in> set plural_tags" "''one'' \<in> set plural_tags" "''two'' \<in> set plural_tags"
  "''few'' \<in> set plural_tags" "''many'' \<in> set plural_tags" "''other'' \<in> set plural_tags"
  "''xyz'' \<notin> set plural_tags"
  by (simp_all add: plural_tags_def)

lemma init_one_two:
  "PluralRule_init (RuleMapping [(''one'', ''n is 1''), (''two'', ''n is 2'')]) =
     Inr \<lparr>abstract = [(''one'', IsN (OperandN Op_n) (ValueN 1)),
                      (''two'', IsN (OperandN Op_n) (ValueN 2))], func = None\<rparr>"
  by (simp add: PluralRule_init_def parse_n_is_1 parse_n_is_2 tag_memberships)

lemma init_one_few:
  "PluralRule_init (RuleMapping [(''one'', ''n in 1,11''), (''few'', ''n in 3..10,13..19'')]) =
     Inr \<lparr>abstract = [(''few'', InN (OperandN Op_n) [Span 3 10, Span 13 19]),
                      (''one'', InN (OperandN Op_n) [Bare 1, Bare 11])], func = None\<rparr>"
  by (simp add: PluralRule_init_def parse_n_in_1_11 parse_n_in_3_19 tag_memberships)

lemma binary_compiler_templates:
  "binary_compiler ''(%s && %s)'' a b = Inr (''('' @ a @ '' && '' @ b @ '')'')"
  "binary_compiler ''(%s || %s)'' a b = Inr (''('' @ a @ '' || '' @ b @ '')'')"
  "binary_compiler ''(%s %% %s)'' a b = Inr (''('' @ a @ '' % '' @ b @ '')'')"
  "binary_compiler ''(%s == %s)'' a b = Inr (''('' @ a @ '' == '' @ b @ '')'')"
  "binary_compiler ''(%s != %s)'' a b = Inr (''('' @ a @ '' != '' @ b @ '')'')"
  "binary_compiler ''(%s and %s)'' a b = Inr (''('' @ a @ '' and '' @ b @ '')'')"
  "binary_compiler ''(%s or %s)'' a b = Inr (''('' @ a @ '' or '' @ b @ '')'')"
  "binary_compiler ''MOD(%s, %s)'' a b = Inr (''MOD('' @ a @ '', '' @ b @ '')'')"
  "binary_compiler ''%s is %s'' a b = Inr (a @ '' is '' @ b)"
  "binary_compiler ''%s is not %s'' a b = Inr (a @ '' is not '' @ b)"
  "binary_compiler ''%s and %s'' a b = Inr (a @ '' and '' @ b)"
  "binary_compiler ''%s or %s'' a b = Inr (a @ '' or '' @ b)"
  "binary_compiler ''%s mod %s'' a b = Inr (a @ '' mod '' @ b)"
  by (simp_all add: binary_compiler_def)

lemma unary_compiler_templates:
  "unary_compiler ''(!%s)'' a = Inr (''(!'' @ a @ '')'')"
  "unary_compiler ''(not %s)'' a = Inr (''(not '' @ a @ '')'')"
  by (simp_all add: unary_compiler_def)

lemma str_nat_small:
  "str_nat 0 = ''0''" "str_nat (Suc 0) = ''1''" "str_nat (Suc (Suc 0)) = ''2''"
  "str_nat (Suc (Suc (Suc 0))) = ''3''"
  by code_simp+

lemma str_int_small:
  "str_int 1 = ''1''" "str_int 2 = ''2''"
  by code_simp+

text \<open>
  C5: \<^verbatim>\<open>to_gettext\<close> returns \<^verbatim>\<open>nplurals=<k+1>; plural=(<e0> ? 0 : <e1> ? 1 : ... : <k>);\<close>
  with the conditions in sorted-tag order, and
  \<^verbatim>\<open>to_gettext({'one': 'n is 1', 'two': 'n is 2'})\<close> is
  \<^verbatim>\<open>nplurals=3; plural=((n == 1) ? 0 : (n == 2) ? 1 : 2);\<close>. On the code each condition
  gets a second pair of parentheses: the template of \<open>is\<close> writes \<^verbatim>\<open>(n == 1)\<close> and
  \<^verbatim>\<open>to_gettext\<close> wraps it again in \<^verbatim>\<open>f"({expr}) ? {idx} : "\<close>.
\<close>

theorem to_gettext_example_doubled_parentheses:
  "to_gettext rel [] (RuleMapping [(''one'', ''n is 1''), (''two'', ''n is 2'')]) =
     Inr ''nplurals=3; plural=(((n == 1)) ? 0 : ((n == 2)) ? 1 : 2);''"
  by (simp add: to_gettext_def as_PluralRule_def PluralRule_parse_def PluralRule_new_def
        init_one_two GettextCompiler_def Compiler_def compile_operand_def apply2_def
        binary_compiler_templates str_nat_small str_int_small)

lemma gettext_operands:
  "compile (GettextCompiler rel) (OperandN Op_n) = Inr ''n''"
  "compile (GettextCompiler rel) (OperandN Op_i) = Inr ''n''"
  "compile (GettextCompiler rel) (OperandN Op_v) = Inr ''0''"
  "compile (GettextCompiler rel) (OperandN Op_w) = Inr ''0''"
  "compile (GettextCompiler rel) (OperandN Op_f) = Inr ''0''"
  "compile (GettextCompiler rel) (OperandN Op_t) = Inr ''0''"
  by (simp_all add: GettextCompiler_def Compiler_def compile_operand_def compile_zero_def)

subsection \<open>PluralRule.parse\<close>

text \<open>
  C10: \<^verbatim>\<open>PluralRule.parse(rules)\<close> returns the very object \<open>rules\<close> when that is a
  \<^verbatim>\<open>PluralRule\<close> (the same address, the heap unchanged, nothing parsed), so parsing the
  result of a parse returns that result again; for a mapping or a sequence of pairs it
  is the constructor.
\<close>

theorem PluralRule_parse_identity:
  "PluralRule_parse h (RuleObject a) = Inr (a, h)
   \<and> (case PluralRule_parse h x of
          Inl err \<Rightarrow> True
        | Inr (a', h') \<Rightarrow> PluralRule_parse h' (RuleObject a') = Inr (a', h'))
   \<and> PluralRule_parse h (RuleMapping items) = PluralRule_new h (RuleMapping items)
   \<and> PluralRule_parse h (RulePairs pairs) = PluralRule_new h (RulePairs pairs)"
  by (simp add: PluralRule_parse_def split: sum.split)

subsection \<open>PluralRule.tags\<close>

lemma init_loop_tags:
  "init_loop found stored xs = Inr res \<Longrightarrow>
     set (map fst res) =
       set (map fst stored) \<union>
       {key. \<exists>expr a. (key, expr) \<in> set xs \<and> Parser_ast expr = Inr (Some a)}"
proof (induction xs arbitrary: found stored)
  case Nil
  then show ?case by simp
next
  case (Cons x xs)
  obtain key expr where x: "x = (key, expr)" by (cases x)
  from Cons.prems x obtain ast where p: "Parser_ast expr = Inr ast"
    and rec: "init_loop (insert key found)
                (case ast of None \<Rightarrow> stored | Some a \<Rightarrow> stored @ [(key, a)]) xs = Inr res"
    by (auto split: if_splits sum.splits)
  from Cons.IH [OF rec] p x show ?case
    by (cases ast) auto
qed

text \<open>
  C9, as stated, fails: constructed with an explicit non-empty rule for \<^verbatim>\<open>'other'\<close>, the
  instance stores it and \<^verbatim>\<open>tags\<close> includes \<^verbatim>\<open>'other'\<close>, as the docstring of the property
  says ("unless there is an explicit rule for it").
\<close>

theorem PluralRule_tags_other_counterexample:
  "PluralRule_init (RuleMapping [(''other'', ''n is 1'')]) =
     Inr \<lparr>abstract = [(''other'', IsN (OperandN Op_n) (ValueN 1))], func = None\<rparr>
   \<and> ''other'' \<in> PluralRule_tags
         \<lparr>abstract = [(''other'', IsN (OperandN Op_n) (ValueN 1))], func = None\<rparr>"
  by (simp add: PluralRule_init_def parse_n_is_1 tag_memberships PluralRule_tags_def)

text \<open>
  C9 (amended): for every \<^verbatim>\<open>PluralRule\<close> instance built by the constructor, \<^verbatim>\<open>tags\<close> is
  exactly the set of the tags of its stored rules, which are the tags given with a
  non-empty expression; so it includes \<^verbatim>\<open>'other'\<close> exactly when the instance was
  constructed with an explicit non-empty rule for \<^verbatim>\<open>'other'\<close>.
\<close>

theorem PluralRule_tags_stored:
  assumes "rules = RuleMapping pairs \<or> rules = RulePairs pairs"
    and "PluralRule_init rules = Inr r"
  shows "PluralRule_tags r = fst ` set (abstract r)
    \<and> PluralRule_tags r =
         {key. \<exists>expr a. (key, expr) \<in> set pairs \<and> Parser_ast expr = Inr (Some a)}"
proof -
  from assms obtain stored where "init_loop {} [] (sort pairs) = Inr stored"
    and "r = \<lparr>abstract = stored, func = None\<rparr>"
    by (auto simp: PluralRule_init_def split: sum.splits)
  with init_loop_tags [of "{}" "[]" "sort pairs" stored] show ?thesis
    by (simp add: PluralRule_tags_def)
qed

theorem PluralRule_tags_stored_witness:
  "PluralRule_init (RuleMapping [(''other'', ''n is 1''), (''one'', ''  '')]) =
     Inr \<lparr>abstract = [(''other'', IsN (OperandN Op_n) (ValueN 1))], func = None\<rparr>
   \<and> PluralRule_tags \<lparr>abstract = [(''other'', IsN (OperandN Op_n) (ValueN 1))], func = None\<rparr>
       = {key. \<exists>expr a. (key, expr) \<in> set [(''other'', ''n is 1''), (''one'', ''  '')]
                \<and> Parser_ast expr = Inr (Some a)}
   \<and> PluralRule_tags \<lparr>abstract = [(''other'', IsN (OperandN Op_n) (ValueN 1))], func = None\<rparr>
       = {''other''}"
proof -
  have init: "PluralRule_init (RuleMapping [(''other'', ''n is 1''), (''one'', ''  '')]) =
     Inr \<lparr>abstract = [(''other'', IsN (OperandN Op_n) (ValueN 1))], func = None\<rparr>"
    by (simp add: PluralRule_init_def parse_n_is_1 parse_blank tag_memberships)
  from PluralRule_tags_stored
    [of "RuleMapping [(''other'', ''n is 1''), (''one'', ''  '')]"
        "[(''other'', ''n is 1''), (''one'', ''  '')]", OF _ init] init
  show ?thesis
    by (simp add: PluralRule_tags_def)
qed

subsection \<open>The constructor and bad tags\<close>





subsection \<open>Calling a rule\<close>

lemma split_lines_nonempty: "split_lines s \<noteq> []"
  by (induction s) (auto split: list.splits)

lemma split_lines_append: "split_lines (a @ newline # b) = split_lines a @ split_lines b"
proof (induction a)
  case Nil
  show ?case by simp
next
  case (Cons c cs)
  then show ?case
    using split_lines_nonempty [of cs] by (auto split: list.splits)
qed

lemma exec_rejects_column_0:
  assumes "take 1 l \<noteq> '' ''" and "newline \<notin> set l"
  shows "\<not> exec_accepts (pre @ newline # l)"
proof -
  have "split_lines l = [l]"
    using assms(2) by (induction l) (auto split: list.splits)
  then have "tl (split_lines (pre @ newline # l)) = tl (split_lines pre) @ [l]"
    using split_lines_nonempty [of pre] by (simp add: split_lines_append)
  with assms(1) show ?thesis
    by (simp add: exec_accepts_def)
qed

lemma compile_python_total: "\<exists>s. compile (PythonCompiler rel) a = Inr s"
  by (induction a)
     (auto simp: PythonCompiler_def Compiler_def apply1_def apply2_def
        binary_compiler_templates unary_compiler_templates)

lemma python_parts_total:
  "\<exists>ps. python_parts (PythonCompiler rel) stored = Inr (ps @ [''return '' @ [quote] @ ''other'' @ [quote]])
        \<and> length ps = length stored"
proof (induction stored)
  case Nil
  show ?case by simp
next
  case (Cons x stored)
  obtain tag ast where x: "x = (tag, ast)" by (cases x)
  from compile_python_total obtain s where "compile (PythonCompiler rel) ast = Inr s"
    by blast
  with Cons x show ?case
    by (auto intro: exI [of _ "_ # _"])
qed

lemma join_snoc: "ps \<noteq> [] \<Longrightarrow> join sep (ps @ [p]) = join sep ps @ sep @ p"
  by (induction sep ps rule: join.induct) auto

text \<open>
  As soon as a rule stores one condition, the text that \<^verbatim>\<open>to_python\<close> gives to \<^verbatim>\<open>exec\<close>
  has the line \<^verbatim>\<open>return 'other'\<close> at column 0: \<^verbatim>\<open>'\n'.join(parts)\<close> indents the first
  part only.
\<close>

lemma to_python_stored_SyntaxError:
  assumes "abstract (h ! a) \<noteq> []"
  shows "to_python ev rel h (RuleObject a) = Inl SyntaxError"
proof -
  from python_parts_total [of rel "abstract (h ! a)"] obtain ps where
    ps: "python_parts (PythonCompiler rel) (abstract (h ! a))
           = Inr (ps @ [''return '' @ [quote] @ ''other'' @ [quote]])"
    and len: "length ps = length (abstract (h ! a))"
    by blast
  define lastl where "lastl = ''return '' @ [quote] @ ''other'' @ [quote]"
  define pre where "pre = ''def plural(n):'' @ [newline] @
       ''    n, i, v, w, f, t, c, e = extract_operands(n)'' @ [newline] @
       ''    '' @ join [newline] ps"
  from len assms have "ps \<noteq> []" by auto
  then have src: "python_source (ps @ [lastl]) = pre @ newline # lastl"
    by (simp add: python_source_def join_snoc pre_def)
  have "\<not> exec_accepts (pre @ newline # lastl)"
    by (rule exec_rejects_column_0) (simp_all add: lastl_def newline_def quote_def)
  with src have "\<not> exec_accepts (python_source (ps @ [lastl]))"
    by simp
  moreover from ps have "python_parts (PythonCompiler rel) (abstract (h ! a)) = Inr (ps @ [lastl])"
    by (simp add: lastl_def)
  ultimately show ?thesis
    by (simp add: to_python_def as_PluralRule_def)
qed

lemma PluralRule_call_stored_SyntaxError:
  assumes "func (h ! a) = None" and "abstract (h ! a) \<noteq> []"
  shows "PluralRule_call ev rel h a n = (Inl SyntaxError, h)"
  using assms by (simp add: PluralRule_call_def to_python_stored_SyntaxError)

lemma PluralRule_call_nothing_stored:
  assumes "func (h ! a) = None" and "abstract (h ! a) = []"
  shows "fst (PluralRule_call ev rel h a n) = Inr ''other''"
proof -
  have "exec_accepts (python_source [''return '' @ [quote] @ ''other'' @ [quote]])"
    by (simp add: exec_accepts_def python_source_def newline_def quote_def)
  with assms show ?thesis
    by (simp add: PluralRule_call_def to_python_def as_PluralRule_def plural_def)
qed

text \<open>
  C1: calling a rule extracts the operands, evaluates the stored conditions in order
  and returns the first tag whose condition is true, \<^verbatim>\<open>'other'\<close> if none; for
  \<^verbatim>\<open>PluralRule({'one': 'n in 1,11', 'few': 'n in 3..10,13..19'})\<close> the calls with 11, 15
  and 20 return \<^verbatim>\<open>'one'\<close>, \<^verbatim>\<open>'few'\<close> and \<^verbatim>\<open>'other'\<close>. On the code the construction
  succeeds and each of the three calls raises \<^verbatim>\<open>SyntaxError\<close>, whatever text \<open>rel\<close> the
  Python compiler writes for a range relation.
\<close>

theorem PluralRule_call_example_SyntaxError:
  "PluralRule_new [] (RuleMapping [(''one'', ''n in 1,11''), (''few'', ''n in 3..10,13..19'')])
     = Inr (0, [\<lparr>abstract = [(''few'', InN (OperandN Op_n) [Span 3 10, Span 13 19]),
                             (''one'', InN (OperandN Op_n) [Bare 1, Bare 11])],
                 func = None\<rparr>])
   \<and> fst (PluralRule_call ev rel
            [\<lparr>abstract = [(''few'', InN (OperandN Op_n) [Span 3 10, Span 13 19]),
                          (''one'', InN (OperandN Op_n) [Bare 1, Bare 11])],
              func = None\<rparr>] 0 (PyInt 11)) = Inl SyntaxError
   \<and> fst (PluralRule_call ev rel
            [\<lparr>abstract = [(''few'', InN (OperandN Op_n) [Span 3 10, Span 13 19]),
                          (''one'', InN (OperandN Op_n) [Bare 1, Bare 11])],
              func = None\<rparr>] 0 (PyInt 15)) = Inl SyntaxError
   \<and> fst (PluralRule_call ev rel
            [\<lparr>abstract = [(''few'', InN (OperandN Op_n) [Span 3 10, Span 13 19]),
                          (''one'', InN (OperandN Op_n) [Bare 1, Bare 11])],
              func = None\<rparr>] 0 (PyInt 20)) = Inl SyntaxError"
  by (simp add: PluralRule_new_def init_one_few PluralRule_call_stored_SyntaxError)

subsection \<open>Empty expressions\<close>

lemma tokenize_rule_blank:
  assumes "list_all is_space s"
  shows "tokenize_rule s = Inr []"
proof (cases "s = []")
  case True
  then show ?thesis
    by (simp add: tokenize_rule_def tokenize_loop.simps)
next
  case False
  from assms have tw: "takeWhile is_space s = s"
    by (simp add: list_all_iff)
  have "match_space s = Some s"
    unfolding match_space_def Let_def tw using False by simp
  then have "first_match False s = Some (None, s)"
    by (simp add: first_match_def)
  with False show ?thesis
    by (simp add: tokenize_rule_def tokenize_loop.simps [of _ _ s] tokenize_loop.simps [of _ _ "[]"])
qed

lemma Parser_ast_blank: "list_all is_space s \<Longrightarrow> Parser_ast s = Inr None"
  by (simp add: Parser_ast_def tokenize_rule_blank)

lemma init_loop_blank:
  assumes "list_all is_space expr" and "key \<in> set plural_tags" and "key \<notin> found"
  shows "init_loop found stored ((key, expr) # rest) = init_loop (insert key found) stored rest"
  using assms by (simp add: Parser_ast_blank)

text \<open>
  C7: for a tag given with an empty or whitespace-only expression the tokens are
  empty, the parser sets \<^verbatim>\<open>ast = None\<close> without raising, no entry is stored for the tag,
  the tag is not in \<^verbatim>\<open>tags\<close>, and classification falls through to \<^verbatim>\<open>'other'\<close> for inputs
  that no other rule matches. On the code all of that holds but the last: with
  \<^verbatim>\<open>[('one', '  '), ('two', 'n is 2')]\<close> the rule stores the entry of \<^verbatim>\<open>'two'\<close> alone, and
  the call with 5, which no rule matches, raises \<^verbatim>\<open>SyntaxError\<close>.
\<close>

theorem PluralRule_blank_expression_call:
  "tokenize_rule ''  '' = Inr []
   \<and> Parser_ast ''  '' = Inr None
   \<and> PluralRule_new [] (RulePairs [(''one'', ''  ''), (''two'', ''n is 2'')])
       = Inr (0, [\<lparr>abstract = [(''two'', IsN (OperandN Op_n) (ValueN 2))], func = None\<rparr>])
   \<and> ''one'' \<notin> PluralRule_tags \<lparr>abstract = [(''two'', IsN (OperandN Op_n) (ValueN 2))], func = None\<rparr>
   \<and> fst (PluralRule_call ev rel
            [\<lparr>abstract = [(''two'', IsN (OperandN Op_n) (ValueN 2))], func = None\<rparr>] 0 (PyInt 5))
       = Inl SyntaxError"
proof -
  have blank: "list_all is_space ''  ''"
    by (simp add: is_space_def)
  have "PluralRule_init (RulePairs [(''one'', ''  ''), (''two'', ''n is 2'')])
       = Inr \<lparr>abstract = [(''two'', IsN (OperandN Op_n) (ValueN 2))], func = None\<rparr>"
    by (simp add: PluralRule_init_def Parser_ast_blank [OF blank] parse_n_is_2 tag_memberships)
  then show ?thesis
    by (simp add: tokenize_rule_blank [OF blank] Parser_ast_blank [OF blank] PluralRule_new_def
          PluralRule_tags_def PluralRule_call_stored_SyntaxError)
qed

subsection \<open>Operands\<close>

lemma strip_trailing_zeros_spec:
  "strip_trailing_zeros v f = (w, t) \<Longrightarrow>
     w \<le> v \<and> f = t * 10 ^ (v - w) \<and> (w = 0 \<or> t mod 10 \<noteq> 0)"
proof (induction v arbitrary: f)
  case 0
  then show ?case by simp
next
  case (Suc v)
  show ?case
  proof (cases "f mod 10 = 0")
    case True
    with Suc.prems have rec: "strip_trailing_zeros v (f div 10) = (w, t)"
      by simp
    from Suc.IH [OF rec] have w: "w \<le> v" and f: "f div 10 = t * 10 ^ (v - w)"
      and t: "w = 0 \<or> t mod 10 \<noteq> 0"
      by simp_all
    from True have "f = 10 * (f div 10)"
      by presburger
    also have "\<dots> = t * 10 ^ (Suc v - w)"
      using w f by (simp add: Suc_diff_le)
    finally show ?thesis
      using w t by simp
  next
    case False
    with Suc.prems show ?thesis by auto
  qed
qed

text \<open>
  C8: \<^verbatim>\<open>extract_operands(source)\<close> returns \<open>(n, i, v, w, f, t, c, e)\<close> where \<open>n\<close> is the
  absolute value of the input as an exact decimal, \<open>i\<close> its integer part, \<open>v\<close> and \<open>w\<close>
  the counts of fractional digits with and without trailing zeros, \<open>f\<close> and \<open>t\<close> the
  fractional digits as integers with and without trailing zeros, and \<open>c = e = 0\<close>; a
  float goes through its decimal string, so its operands are those of that decimal.
\<close>

theorem extract_operands_spec:
  assumes "extract_operands source = (n, i, v, w, f, t, c, e)"
  shows "dec_value n = \<bar>num_value source\<bar>
    \<and> exponent n = exponent (source_decimal source)
    \<and> i = \<lfloor>dec_value n\<rfloor>
    \<and> v = (if exponent (source_decimal source) < 0 then - exponent (source_decimal source) else 0)
    \<and> 0 \<le> f \<and> f < 10 ^ nat v
    \<and> dec_value n = of_int i + of_int f / 10 ^ nat v
    \<and> 0 \<le> w \<and> w \<le> v
    \<and> f = t * 10 ^ nat (v - w)
    \<and> (w = 0 \<or> t mod 10 \<noteq> 0)
    \<and> c = 0 \<and> e = 0
    \<and> extract_operands (PyFloat (source_decimal source)) = (n, i, v, w, f, t, c, e)"
proof -
  define d where "d = source_decimal source"
  define a where "a = \<bar>coefficient d\<bar>"
  define k where "k = (if exponent d < 0 then nat (- exponent d) else 0)"
  define ff where "ff = (if exponent d < 0 then a mod 10 ^ k else 0)"
  obtain w' t' where strip: "strip_trailing_zeros k ff = (w', t')"
    by (cases "strip_trailing_zeros k ff")
  have "extract_operands source =
      (case strip_trailing_zeros k ff of
         (w, t) \<Rightarrow>
           (Decimal a (exponent d),
            (if exponent d < 0 then a div 10 ^ k else a * 10 ^ nat (exponent d)),
            int k, int w, ff, t, 0, 0))"
    by (simp add: extract_operands_def Let_def d_def a_def k_def ff_def)
  with assms strip have n: "n = Decimal a (exponent d)"
    and i: "i = (if exponent d < 0 then a div 10 ^ k else a * 10 ^ nat (exponent d))"
    and v: "v = int k" and w: "w = int w'" and f: "f = ff" and t: "t = t'"
    and ce: "c = 0" "e = 0"
    by simp_all
  have val: "num_value source = dec_value d"
    by (cases source) (simp_all add: d_def)
  have abs_val: "dec_value n = \<bar>dec_value d\<bar>"
    by (cases d) (simp add: n a_def abs_mult)
  have floor_i: "i = \<lfloor>dec_value n\<rfloor>"
  proof (cases "exponent d < 0")
    case True
    have "\<lfloor>(of_int a :: rat) / 10 ^ m\<rfloor> = a div 10 ^ m" for m
      using floor_divide_of_int_eq [of a "10 ^ m", where ?'a = rat] by simp
    with True show ?thesis
      by (simp add: n i k_def)
  next
    case False
    have "\<lfloor>(of_int (a * 10 ^ nat (exponent d)) :: rat)\<rfloor> = a * 10 ^ nat (exponent d)"
      by (rule floor_of_int)
    with False show ?thesis
      by (simp add: n i)
  qed
  have f_range: "0 \<le> ff" "ff < 10 ^ k"
    by (simp_all add: ff_def)
  have split_val: "dec_value n = of_int i + of_int ff / 10 ^ k"
  proof (cases "exponent d < 0")
    case True
    have "(a div 10 ^ k) * 10 ^ k + a mod 10 ^ k = a"
      by (rule div_mult_mod_eq)
    then have "(of_int ((a div 10 ^ k) * 10 ^ k + a mod 10 ^ k) :: rat) = of_int a"
      by (rule arg_cong)
    then have "(of_int a :: rat) = of_int (a div 10 ^ k) * 10 ^ k + of_int (a mod 10 ^ k)"
      by simp
    then have "(of_int a :: rat) / 10 ^ k = of_int (a div 10 ^ k) + of_int (a mod 10 ^ k) / 10 ^ k"
      by (simp add: field_simps)
    with True show ?thesis
      by (simp add: n i ff_def k_def)
  next
    case False
    then show ?thesis
      by (simp add: n i ff_def k_def)
  qed
  from strip_trailing_zeros_spec [OF strip]
  have w_le: "w' \<le> k" and f_t: "ff = t' * 10 ^ (k - w')" and t_nz: "w' = 0 \<or> t' mod 10 \<noteq> 0"
    by simp_all
  have float: "extract_operands (PyFloat d) = extract_operands source"
    by (simp add: extract_operands_def d_def)
  show ?thesis
    using abs_val val floor_i f_range split_val w_le f_t t_nz ce float assms
    by (simp add: n v w f t k_def nat_diff_distrib' flip: d_def)
qed

theorem extract_operands_spec_witness:
  "extract_operands (PyDecimal (Decimal 130 (- 2))) = (Decimal 130 (- 2), 1, 2, 1, 30, 3, 0, 0)
   \<and> dec_value (Decimal 130 (- 2)) = 13 / 10
   \<and> (1::int) = \<lfloor>dec_value (Decimal 130 (- 2))\<rfloor>
   \<and> (30::int) = 3 * 10 ^ nat (2 - 1)
   \<and> extract_operands (PyFloat (Decimal 130 (- 2))) = (Decimal 130 (- 2), 1, 2, 1, 30, 3, 0, 0)"
proof -
  have ex: "extract_operands (PyDecimal (Decimal 130 (- 2))) = (Decimal 130 (- 2), 1, 2, 1, 30, 3, 0, 0)"
    by code_simp
  from extract_operands_spec [OF ex] ex show ?thesis
    by simp
qed

subsection \<open>Round trip: from the tokens of a tree to the tree\<close>

lemma digit_char_value: "d < 10 \<Longrightarrow> int (of_char (digit_char d)) - 48 = int d"
  by (simp add: digit_char_def)

lemma int_of_digits_snoc:
  "int_of_digits (s @ [c]) = 10 * int_of_digits s + (int (of_char c) - 48)"
  by (simp add: int_of_digits_def)

lemma int_of_digits_str_nat: "int_of_digits (str_nat n) = int n"
proof (induction n rule: str_nat.induct)
  case (1 n)
  show ?case
  proof (cases "n < 10")
    case True
    then show ?thesis
      by (subst str_nat.simps) (simp add: int_of_digits_def digit_char_value)
  next
    case False
    with 1 have "int_of_digits (str_nat (n div 10)) = int (n div 10)"
      by simp
    with False show ?thesis
      by (subst str_nat.simps) (simp add: int_of_digits_snoc digit_char_value zdiv_int zmod_int)
  qed
qed

lemma int_of_digits_str_int: "0 \<le> k \<Longrightarrow> int_of_digits (str_int k) = k"
  by (simp add: str_int_def int_of_digits_str_nat)

lemma value_p_value:
  "0 \<le> k \<Longrightarrow> value_p ((ValueT, str_int k) # rest) = Inr (k, rest)"
  by (simp add: value_p_def int_of_digits_str_int)

lemma range_or_value_tokens:
  assumes "wf_range r" and "skip_token Ellipsis ''..'' rest = None"
  shows "range_or_value (range_tokens r @ rest) = Inr (r, rest)"
  using assms
  by (cases r) (simp_all add: range_or_value_def value_p_value skip_token_def)

lemma range_list_tokens:
  assumes "rl \<noteq> []" and "list_all wf_range rl" and "no_range_follow rest"
  shows "range_list (range_list_tokens rl @ rest) = Inr (rl, rest)"
  using assms
proof (induction rl rule: range_list_tokens.induct)
  case 1
  then show ?case by simp
next
  case (2 r)
  then show ?case
    by (subst range_list.simps) (simp add: range_or_value_tokens no_range_follow_def)
next
  case (3 r r' rs)
  then have rec: "range_list (range_list_tokens (r' # rs) @ rest) = Inr (r' # rs, rest)"
    by simp
  have "range_or_value (range_tokens r @ (Symbol, '','') # range_list_tokens (r' # rs) @ rest)
          = Inr (r, (Symbol, '','') # range_list_tokens (r' # rs) @ rest)"
    using 3 by (intro range_or_value_tokens) (simp_all add: skip_token_def)
  with rec show ?case
    by (subst range_list.simps) (simp add: skip_token_def)
qed

lemma operand_of_name: "operand_of (operand_name x) = Some x"
  by (cases x) (simp_all add: operand_of_def)

lemma expr_p_tokens:
  assumes "wf_expr e"
    and "skip_token Word ''mod'' rest = None" and "skip_token Symbol ''%'' rest = None"
  shows "expr_p (tokens_of e @ rest) = Inr (e, rest)"
  using assms
proof (induction e rule: wf_expr.induct)
  case (1 x)
  then show ?case
    by (simp add: expr_p_def operand_of_name)
next
  case (2 x k)
  then show ?case
    by (simp add: expr_p_def operand_of_name skip_token_def value_p_value)
qed simp_all

lemma relation_p_tokens:
  assumes "wf_relation a" and "no_range_follow rest"
  shows "relation_p (tokens_of a @ rest) = Inr (a, rest)"
  using assms
proof (induction a rule: wf_relation.induct)
  case (1 e k)
  then have "expr_p (tokens_of e @ (Word, ''is'') # (ValueT, str_int k) # rest)
      = Inr (e, (Word, ''is'') # (ValueT, str_int k) # rest)"
    by (intro expr_p_tokens) (simp_all add: skip_token_def)
  with 1 show ?case
    by (simp add: relation_p_def skip_token_def with_value_def value_p_value)
next
  case (2 e k)
  then have "expr_p (tokens_of e @ (Word, ''is'') # (Word, ''not'') # (ValueT, str_int k) # rest)
      = Inr (e, (Word, ''is'') # (Word, ''not'') # (ValueT, str_int k) # rest)"
    by (intro expr_p_tokens) (simp_all add: skip_token_def)
  with 2 show ?case
    by (simp add: relation_p_def skip_token_def with_value_def value_p_value)
next
  case (3 e rl)
  then have "expr_p (tokens_of e @ (Word, ''in'') # range_list_tokens rl @ rest)
      = Inr (e, (Word, ''in'') # range_list_tokens rl @ rest)"
    by (intro expr_p_tokens) (simp_all add: skip_token_def)
  with 3 show ?case
    by (simp add: relation_p_def skip_token_def with_range_list_def range_list_tokens)
next
  case (4 e rl)
  then have "expr_p (tokens_of e @ (Word, ''not'') # (Word, ''in'') # range_list_tokens rl @ rest)
      = Inr (e, (Word, ''not'') # (Word, ''in'') # range_list_tokens rl @ rest)"
    by (intro expr_p_tokens) (simp_all add: skip_token_def)
  with 4 show ?case
    by (simp add: relation_p_def skip_token_def with_range_list_def range_list_tokens)
next
  case (5 e rl)
  then have "expr_p (tokens_of e @ (Word, ''within'') # range_list_tokens rl @ rest)
      = Inr (e, (Word, ''within'') # range_list_tokens rl @ rest)"
    by (intro expr_p_tokens) (simp_all add: skip_token_def)
  with 5 show ?case
    by (simp add: relation_p_def skip_token_def with_range_list_def range_list_tokens)
next
  case (6 e rl)
  then have "expr_p (tokens_of e @ (Word, ''not'') # (Word, ''within'') # range_list_tokens rl @ rest)
      = Inr (e, (Word, ''not'') # (Word, ''within'') # range_list_tokens rl @ rest)"
    by (intro expr_p_tokens) (simp_all add: skip_token_def)
  with 6 show ?case
    by (simp add: relation_p_def skip_token_def with_range_list_def range_list_tokens)
qed simp_all

lemma no_range_follow_word [simp]: "no_range_follow ((Word, w) # rest)"
  by (simp add: no_range_follow_def skip_token_def)

lemma no_range_follow_Nil [simp]: "no_range_follow []"
  by (simp add: no_range_follow_def skip_token_def)

lemma and_condition_relation:
  assumes "wf_relation a" and "no_range_follow rest"
  shows "and_condition (tokens_of a @ rest) = and_loop a rest"
  using assms by (simp add: and_condition_def relation_p_tokens del: tokens_of.simps)

lemma and_condition_tokens:
  assumes "wf_and_condition a" and "no_range_follow rest"
  shows "and_condition (tokens_of a @ rest) = and_loop a rest"
  using assms
proof (induction a arbitrary: rest rule: wf_and_condition.induct)
  case (1 l r)
  then have "and_condition (tokens_of l @ (Word, ''and'') # tokens_of r @ rest)
      = and_loop l ((Word, ''and'') # tokens_of r @ rest)"
    by simp
  also have "\<dots> = and_loop (AndN l r) rest"
    using 1 by (subst and_loop.simps) (simp add: skip_token_def relation_p_tokens)
  finally show ?case by simp
qed (simp_all add: and_condition_relation del: tokens_of.simps wf_relation.simps)

lemma and_condition_tokens_end:
  assumes "wf_and_condition a" and "no_range_follow rest"
    and "skip_token Word ''and'' rest = None"
  shows "and_condition (tokens_of a @ rest) = Inr (a, rest)"
  using assms by (simp add: and_condition_tokens and_loop.simps [of a rest])

lemma condition_and_condition:
  assumes "wf_and_condition a" and "no_range_follow rest"
    and "skip_token Word ''and'' rest = None"
  shows "condition (tokens_of a @ rest) = or_loop a rest"
  using assms by (simp add: condition_def and_condition_tokens_end del: tokens_of.simps)

lemma condition_tokens:
  assumes "wf_condition a" and "no_range_follow rest" and "skip_token Word ''and'' rest = None"
  shows "condition (tokens_of a @ rest) = or_loop a rest"
  using assms
proof (induction a arbitrary: rest rule: wf_condition.induct)
  case (1 l r)
  then have "condition (tokens_of l @ (Word, ''or'') # tokens_of r @ rest)
      = or_loop l ((Word, ''or'') # tokens_of r @ rest)"
    by (simp add: skip_token_def)
  also have "\<dots> = or_loop (OrN l r) rest"
    using 1
    by (subst or_loop.simps) (simp add: skip_token_def and_condition_tokens_end)
  finally show ?case by simp
qed (simp_all add: condition_and_condition
       del: tokens_of.simps wf_and_condition.simps wf_relation.simps)

lemma condition_tokens_of:
  assumes "wf_condition a"
  shows "condition (tokens_of a) = Inr (a, [])"
  using condition_tokens [OF assms, of "[]"]
  by (simp add: skip_token_def or_loop.simps [of a "[]"])

subsection \<open>Round trip: from the text of a tree to its tokens\<close>

lemma then_tokens_simps [simp]:
  "then_tokens [] r = r"
  "then_tokens a (then_tokens b r) = then_tokens (a @ b) r"
  "then_tokens a (Inr ts) = Inr (a @ ts)"
  by (simp_all add: then_tokens_def split: sum.splits)

lemma tokenize_loop_step:
  assumes "first_match p s = Some (ty, m)" and "s \<noteq> []"
  shows "tokenize_loop n p s =
     then_tokens (case ty of None \<Rightarrow> [] | Some tt \<Rightarrow> [(tt, m)])
       (tokenize_loop n (is_word_char (last m)) (drop (length m) s))"
  using assms
  by (subst tokenize_loop.simps) (simp add: then_tokens_def split: sum.splits option.splits)

lemma takeWhile_prefix:
  assumes "list_all P w" and "s = [] \<or> \<not> P (hd s)"
  shows "takeWhile P (w @ s) = w"
  using assms by (cases s) (simp_all add: list_all_iff takeWhile_append)

lemma takeWhile_none: "s = [] \<or> \<not> P (hd s) \<Longrightarrow> takeWhile P s = []"
  by (cases s) simp_all

lemma tokenize_space:
  assumes "s = [] \<or> \<not> is_space (hd s)"
  shows "tokenize_loop n p (CHR '' '' # s) = tokenize_loop n False s"
proof -
  have "takeWhile is_space (CHR '' '' # s) = '' ''"
    using takeWhile_none [of s is_space, OF assms] by (simp add: is_space_def)
  then have "first_match p (CHR '' '' # s) = Some (None, '' '')"
    by (simp add: first_match_def match_space_def)
  from tokenize_loop_step [OF this] show ?thesis
    by (simp add: is_word_char_def)
qed

lemma reserved_word_chars:
  assumes "w \<in> set reserved_words"
  shows "w \<noteq> []" and "list_all is_word_char w" and "\<not> is_space (hd w)"
    and "is_word_char (last w)" and "\<not> is_digit (hd w)"
  using assms by (auto simp: reserved_words_def is_word_char_def is_space_def is_digit_def)

lemma tokenize_word:
  assumes "w \<in> set reserved_words" and "s = [] \<or> \<not> is_word_char (hd s)"
  shows "tokenize_loop n False (w @ s) = then_tokens [(Word, w)] (tokenize_loop n True s)"
proof -
  note w = reserved_word_chars [OF assms(1)]
  from w(1,3) have "takeWhile is_space (w @ s) = []"
    by (cases w) simp_all
  then have "match_space (w @ s) = None"
    by (simp add: match_space_def)
  moreover have "takeWhile is_word_char (w @ s) = w"
    using w(2) assms(2) by (rule takeWhile_prefix [of is_word_char])
  then have "match_word False (w @ s) = Some w"
    using assms(1) by (simp add: match_word_def)
  ultimately have "first_match False (w @ s) = Some (Some Word, w)"
    by (simp add: first_match_def)
  from tokenize_loop_step [OF this] w(1,4) show ?thesis
    by simp
qed

lemma tokenize_word_space:
  assumes "w \<in> set reserved_words" and "s = [] \<or> \<not> is_space (hd s)"
  shows "tokenize_loop n False (w @ CHR '' '' # s) = then_tokens [(Word, w)] (tokenize_loop n False s)"
  using tokenize_word [OF assms(1), of "CHR '' '' # s" n] tokenize_space [OF assms(2), of n True]
  by (simp add: is_word_char_def)

lemma tokenize_keyword:
  assumes "w \<in> set reserved_words" and "s = [] \<or> \<not> is_space (hd s)"
  shows "tokenize_loop n p (CHR '' '' # w @ CHR '' '' # s)
     = then_tokens [(Word, w)] (tokenize_loop n False s)"
proof -
  from reserved_word_chars [OF assms(1)] have "\<not> is_space (hd (w @ CHR '' '' # s))"
    by (cases w) simp_all
  then have "tokenize_loop n p (CHR '' '' # w @ CHR '' '' # s)
      = tokenize_loop n False (w @ CHR '' '' # s)"
    by (intro tokenize_space) simp
  with tokenize_word_space [OF assms] show ?thesis
    by simp
qed

lemma digit_is_word_char: "is_digit c \<Longrightarrow> is_word_char c \<and> \<not> is_space c \<and> c \<noteq> CHR ''.''"
  by (auto simp: is_digit_def is_word_char_def is_space_def)

lemma digits_not_reserved:
  assumes "ds \<noteq> []" and "is_digit (hd ds)"
  shows "ds \<notin> set reserved_words"
proof
  assume "ds \<in> set reserved_words"
  from reserved_word_chars(5) [OF this] assms(2) show False
    by simp
qed

lemma tokenize_digits:
  assumes "ds \<noteq> []" and "list_all is_digit ds" and "s = [] \<or> \<not> is_word_char (hd s)"
  shows "tokenize_loop n p (ds @ s) = then_tokens [(ValueT, ds)] (tokenize_loop n True s)"
proof -
  from assms(1,2) have hd: "is_digit (hd ds)" and last: "is_digit (last ds)"
    by (simp_all add: list_all_iff)
  from assms(1) hd have "takeWhile is_space (ds @ s) = []"
    by (cases ds) (simp_all add: digit_is_word_char)
  then have "match_space (ds @ s) = None"
    by (simp add: match_space_def)
  moreover have "list_all is_word_char ds"
    using assms(2) by (simp add: list_all_iff digit_is_word_char)
  then have "takeWhile is_word_char (ds @ s) = ds"
    using assms(3) by (rule takeWhile_prefix [of is_word_char])
  then have "match_word p (ds @ s) = None"
    using digits_not_reserved [OF assms(1) hd] by (simp add: match_word_def)
  moreover have "s = [] \<or> \<not> is_digit (hd s)"
    using assms(3) digit_is_word_char by blast
  with assms(2) have "takeWhile is_digit (ds @ s) = ds"
    by (rule takeWhile_prefix [of is_digit])
  then have "match_value (ds @ s) = Some ds"
    using assms(1) by (simp add: match_value_def)
  ultimately have "first_match p (ds @ s) = Some (Some ValueT, ds)"
    by (simp add: first_match_def)
  from tokenize_loop_step [OF this] assms(1) last show ?thesis
    by (simp add: digit_is_word_char)
qed

lemma tokenize_comma:
  "tokenize_loop n p (CHR '','' # s) = then_tokens [(Symbol, '','')] (tokenize_loop n False s)"
proof -
  have "first_match p (CHR '','' # s) = Some (Some Symbol, '','')"
    by (simp add: first_match_def match_space_def match_word_def match_value_def
          match_symbol_def is_space_def is_word_char_def is_digit_def reserved_words_def)
  from tokenize_loop_step [OF this] show ?thesis
    by (simp add: is_word_char_def)
qed

lemma tokenize_dots:
  assumes "s = [] \<or> hd s \<noteq> CHR ''.''"
  shows "tokenize_loop n p (CHR ''.'' # CHR ''.'' # s)
     = then_tokens [(Ellipsis, ''..'')] (tokenize_loop n False s)"
proof -
  from assms have "take 3 (CHR ''.'' # CHR ''.'' # s) \<noteq> ''...''"
    by (cases s) simp_all
  then have "first_match p (CHR ''.'' # CHR ''.'' # s) = Some (Some Ellipsis, ''..'')"
    by (simp add: first_match_def match_space_def match_word_def match_value_def
          match_symbol_def match_ellipsis_def is_space_def is_word_char_def is_digit_def
          reserved_words_def)
  from tokenize_loop_step [OF this] show ?thesis
    by (simp add: is_word_char_def)
qed

lemma digit_char_is_digit: "d < 10 \<Longrightarrow> is_digit (digit_char d)"
proof -
  have "list_all (\<lambda>d. is_digit (digit_char d)) [0..<10]"
    by code_simp
  then show "d < 10 \<Longrightarrow> is_digit (digit_char d)"
    by (simp add: list_all_iff)
qed

lemma str_nat_digits: "str_nat n \<noteq> [] \<and> list_all is_digit (str_nat n)"
proof (induction n rule: str_nat.induct)
  case (1 n)
  show ?case
  proof (cases "n < 10")
    case True
    then show ?thesis
      by (subst (1 2) str_nat.simps) (simp add: digit_char_is_digit)
  next
    case False
    with 1 show ?thesis
      by (subst (1 2) str_nat.simps) (simp add: digit_char_is_digit)
  qed
qed

lemma str_int_digits:
  assumes "0 \<le> k"
  shows "str_int k \<noteq> []" and "list_all is_digit (str_int k)" and "is_digit (hd (str_int k))"
proof -
  from assms show "str_int k \<noteq> []" and d: "list_all is_digit (str_int k)"
    by (simp_all add: str_int_def str_nat_digits)
  with \<open>str_int k \<noteq> []\<close> show "is_digit (hd (str_int k))"
    by (simp add: list_all_iff)
qed

lemma tokenize_value:
  assumes "0 \<le> k" and "s = [] \<or> \<not> is_word_char (hd s)"
  shows "tokenize_loop n p (str_int k @ s)
     = then_tokens [(ValueT, str_int k)] (tokenize_loop n True s)"
  using str_int_digits(1,2) [OF assms(1)] assms(2) by (rule tokenize_digits)

lemma tokenize_range:
  assumes "wf_range r" and "s = [] \<or> \<not> is_word_char (hd s)"
  shows "tokenize_loop n p (range_text r @ s)
     = then_tokens (range_tokens r) (tokenize_loop n True s)"
proof (cases r)
  case (Bare a)
  with assms show ?thesis
    by (simp add: tokenize_value)
next
  case (Span a b)
  with assms have a: "0 \<le> a" and b: "0 \<le> b"
    by simp_all
  have "tokenize_loop n p (str_int a @ CHR ''.'' # CHR ''.'' # str_int b @ s)
      = then_tokens [(ValueT, str_int a)]
          (tokenize_loop n True (CHR ''.'' # CHR ''.'' # str_int b @ s))"
    using a by (intro tokenize_value) (simp_all add: is_word_char_def)
  also have "tokenize_loop n True (CHR ''.'' # CHR ''.'' # str_int b @ s)
      = then_tokens [(Ellipsis, ''..'')] (tokenize_loop n False (str_int b @ s))"
    using str_int_digits [OF b]
    by (intro tokenize_dots) (cases "str_int b", simp_all add: digit_is_word_char)
  also have "tokenize_loop n False (str_int b @ s)
      = then_tokens [(ValueT, str_int b)] (tokenize_loop n True s)"
    using b assms(2) by (rule tokenize_value)
  finally show ?thesis
    using Span by simp
qed

lemma range_text_head:
  assumes "wf_range r"
  shows "range_text r \<noteq> [] \<and> is_digit (hd (range_text r))"
  using assms str_int_digits by (cases r) (simp_all add: hd_append)

lemma range_list_text_head:
  assumes "rl \<noteq> []" and "list_all wf_range rl"
  shows "range_list_text rl \<noteq> [] \<and> is_digit (hd (range_list_text rl))"
proof (cases rl)
  case Nil
  with assms show ?thesis by simp
next
  case (Cons r rs)
  with assms range_text_head [of r] show ?thesis
    by (cases rs) (simp_all add: range_list_text_def hd_append)
qed

lemma tokenize_range_list:
  assumes "rl \<noteq> []" and "list_all wf_range rl" and "s = [] \<or> \<not> is_word_char (hd s)"
  shows "tokenize_loop n p (range_list_text rl @ s)
     = then_tokens (range_list_tokens rl) (tokenize_loop n True s)"
  using assms
proof (induction rl arbitrary: p rule: range_list_tokens.induct)
  case 1
  then show ?case by simp
next
  case (2 r)
  then show ?case
    by (simp add: range_list_text_def tokenize_range)
next
  case (3 r r' rs)
  have "tokenize_loop n p (range_text r @ CHR '','' # range_list_text (r' # rs) @ s)
      = then_tokens (range_tokens r)
          (tokenize_loop n True (CHR '','' # range_list_text (r' # rs) @ s))"
    using 3(2,3) by (intro tokenize_range) (simp_all add: is_word_char_def)
  also have "tokenize_loop n True (CHR '','' # range_list_text (r' # rs) @ s)
      = then_tokens [(Symbol, '','')] (tokenize_loop n False (range_list_text (r' # rs) @ s))"
    by (rule tokenize_comma)
  also have "tokenize_loop n False (range_list_text (r' # rs) @ s)
      = then_tokens (range_list_tokens (r' # rs)) (tokenize_loop n True s)"
    using 3 by simp
  finally show ?case
    by (simp add: range_list_text_def)
qed

lemma operand_name_reserved: "operand_name x \<in> set reserved_words"
  by (cases x) (simp_all add: reserved_words_def)

lemma keywords_reserved:
  "''and'' \<in> set reserved_words" "''or'' \<in> set reserved_words" "''is'' \<in> set reserved_words"
  "''in'' \<in> set reserved_words" "''within'' \<in> set reserved_words"
  "''not'' \<in> set reserved_words" "''mod'' \<in> set reserved_words"
  by (simp_all add: reserved_words_def)

lemma not_space_digit: "is_digit (hd s) \<Longrightarrow> s = [] \<or> \<not> is_space (hd s)"
  by (simp add: digit_is_word_char)

lemma tokenize_expr:
  assumes "wf_expr e" and "s = [] \<or> \<not> is_word_char (hd s)"
  shows "tokenize_loop n False (unparse e @ s)
     = then_tokens (tokens_of e) (tokenize_loop n True s)"
  using assms
proof (induction e rule: wf_expr.induct)
  case (1 x)
  then show ?case
    by (simp add: tokenize_word operand_name_reserved)
next
  case (2 x k)
  then have k: "0 \<le> k" by simp
  have "tokenize_loop n False (operand_name x @ CHR '' '' # ''mod'' @ CHR '' '' # str_int k @ s)
      = then_tokens [(Word, operand_name x)]
          (tokenize_loop n True (CHR '' '' # ''mod'' @ CHR '' '' # str_int k @ s))"
    by (intro tokenize_word operand_name_reserved) (simp add: is_word_char_def)
  also have "tokenize_loop n True (CHR '' '' # ''mod'' @ CHR '' '' # str_int k @ s)
      = then_tokens [(Word, ''mod'')] (tokenize_loop n False (str_int k @ s))"
    using str_int_digits [OF k]
    by (intro tokenize_keyword keywords_reserved not_space_digit) (simp add: hd_append)
  also have "tokenize_loop n False (str_int k @ s)
      = then_tokens [(ValueT, str_int k)] (tokenize_loop n True s)"
    using k 2(2) by (rule tokenize_value)
  finally show ?case
    by simp
qed simp_all

lemma tokenize_keyword2:
  assumes "w1 \<in> set reserved_words" and "w2 \<in> set reserved_words"
    and "s = [] \<or> \<not> is_space (hd s)"
  shows "tokenize_loop n p (CHR '' '' # w1 @ CHR '' '' # w2 @ CHR '' '' # s)
     = then_tokens [(Word, w1), (Word, w2)] (tokenize_loop n False s)"
proof -
  from reserved_word_chars [OF assms(2)] have "\<not> is_space (hd (w2 @ CHR '' '' # s))"
    by (cases w2) simp_all
  then have "tokenize_loop n p (CHR '' '' # w1 @ CHR '' '' # w2 @ CHR '' '' # s)
      = then_tokens [(Word, w1)] (tokenize_loop n False (w2 @ CHR '' '' # s))"
    by (intro tokenize_keyword assms(1)) simp
  with tokenize_word_space [OF assms(2,3), of n] show ?thesis
    by simp
qed

lemma tokenize_expr_then:
  assumes "wf_expr e"
  shows "tokenize_loop n False (unparse e @ CHR '' '' # s)
     = then_tokens (tokens_of e) (tokenize_loop n True (CHR '' '' # s))"
  using assms by (rule tokenize_expr) (simp add: is_word_char_def)

lemma tokenize_relation:
  assumes "wf_relation a" and "s = [] \<or> \<not> is_word_char (hd s)"
  shows "tokenize_loop n False (unparse a @ s)
     = then_tokens (tokens_of a) (tokenize_loop n True s)"
  using assms
proof (induction a rule: wf_relation.induct)
  case (1 e k)
  then have e: "wf_expr e" and k: "0 \<le> k" by simp_all
  have "tokenize_loop n False (unparse e @ CHR '' '' # ''is'' @ CHR '' '' # str_int k @ s)
      = then_tokens (tokens_of e)
          (tokenize_loop n True (CHR '' '' # ''is'' @ CHR '' '' # str_int k @ s))"
    using e by (rule tokenize_expr_then)
  also have "tokenize_loop n True (CHR '' '' # ''is'' @ CHR '' '' # str_int k @ s)
      = then_tokens [(Word, ''is'')] (tokenize_loop n False (str_int k @ s))"
    using str_int_digits [OF k]
    by (intro tokenize_keyword keywords_reserved not_space_digit) (simp add: hd_append)
  also have "tokenize_loop n False (str_int k @ s)
      = then_tokens [(ValueT, str_int k)] (tokenize_loop n True s)"
    using k 1(2) by (rule tokenize_value)
  finally show ?case by simp
next
  case (2 e k)
  then have e: "wf_expr e" and k: "0 \<le> k" by simp_all
  have "tokenize_loop n False
          (unparse e @ CHR '' '' # ''is'' @ CHR '' '' # ''not'' @ CHR '' '' # str_int k @ s)
      = then_tokens (tokens_of e)
          (tokenize_loop n True
             (CHR '' '' # ''is'' @ CHR '' '' # ''not'' @ CHR '' '' # str_int k @ s))"
    using e by (rule tokenize_expr_then)
  also have "tokenize_loop n True
          (CHR '' '' # ''is'' @ CHR '' '' # ''not'' @ CHR '' '' # str_int k @ s)
      = then_tokens [(Word, ''is''), (Word, ''not'')] (tokenize_loop n False (str_int k @ s))"
    using str_int_digits [OF k]
    by (intro tokenize_keyword2 keywords_reserved not_space_digit) (simp add: hd_append)
  also have "tokenize_loop n False (str_int k @ s)
      = then_tokens [(ValueT, str_int k)] (tokenize_loop n True s)"
    using k 2(2) by (rule tokenize_value)
  finally show ?case by simp
next
  case (3 e rl)
  then have e: "wf_expr e" and rl: "rl \<noteq> []" "list_all wf_range rl" by simp_all
  have "tokenize_loop n False (unparse e @ CHR '' '' # ''in'' @ CHR '' '' # range_list_text rl @ s)
      = then_tokens (tokens_of e)
          (tokenize_loop n True (CHR '' '' # ''in'' @ CHR '' '' # range_list_text rl @ s))"
    using e by (rule tokenize_expr_then)
  also have "tokenize_loop n True (CHR '' '' # ''in'' @ CHR '' '' # range_list_text rl @ s)
      = then_tokens [(Word, ''in'')] (tokenize_loop n False (range_list_text rl @ s))"
    using range_list_text_head [OF rl]
    by (intro tokenize_keyword keywords_reserved not_space_digit) (simp add: hd_append)
  also have "tokenize_loop n False (range_list_text rl @ s)
      = then_tokens (range_list_tokens rl) (tokenize_loop n True s)"
    using rl 3(2) by (rule tokenize_range_list)
  finally show ?case by simp
next
  case (4 e rl)
  then have e: "wf_expr e" and rl: "rl \<noteq> []" "list_all wf_range rl" by simp_all
  have "tokenize_loop n False
          (unparse e @ CHR '' '' # ''not'' @ CHR '' '' # ''in'' @ CHR '' '' # range_list_text rl @ s)
      = then_tokens (tokens_of e)
          (tokenize_loop n True
             (CHR '' '' # ''not'' @ CHR '' '' # ''in'' @ CHR '' '' # range_list_text rl @ s))"
    using e by (rule tokenize_expr_then)
  also have "tokenize_loop n True
          (CHR '' '' # ''not'' @ CHR '' '' # ''in'' @ CHR '' '' # range_list_text rl @ s)
      = then_tokens [(Word, ''not''), (Word, ''in'')]
          (tokenize_loop n False (range_list_text rl @ s))"
    using range_list_text_head [OF rl]
    by (intro tokenize_keyword2 keywords_reserved not_space_digit) (simp add: hd_append)
  also have "tokenize_loop n False (range_list_text rl @ s)
      = then_tokens (range_list_tokens rl) (tokenize_loop n True s)"
    using rl 4(2) by (rule tokenize_range_list)
  finally show ?case by simp
next
  case (5 e rl)
  then have e: "wf_expr e" and rl: "rl \<noteq> []" "list_all wf_range rl" by simp_all
  have "tokenize_loop n False
          (unparse e @ CHR '' '' # ''within'' @ CHR '' '' # range_list_text rl @ s)
      = then_tokens (tokens_of e)
          (tokenize_loop n True (CHR '' '' # ''within'' @ CHR '' '' # range_list_text rl @ s))"
    using e by (rule tokenize_expr_then)
  also have "tokenize_loop n True (CHR '' '' # ''within'' @ CHR '' '' # range_list_text rl @ s)
      = then_tokens [(Word, ''within'')] (tokenize_loop n False (range_list_text rl @ s))"
    using range_list_text_head [OF rl]
    by (intro tokenize_keyword keywords_reserved not_space_digit) (simp add: hd_append)
  also have "tokenize_loop n False (range_list_text rl @ s)
      = then_tokens (range_list_tokens rl) (tokenize_loop n True s)"
    using rl 5(2) by (rule tokenize_range_list)
  finally show ?case by simp
next
  case (6 e rl)
  then have e: "wf_expr e" and rl: "rl \<noteq> []" "list_all wf_range rl" by simp_all
  have "tokenize_loop n False
          (unparse e @ CHR '' '' # ''not'' @ CHR '' '' # ''within'' @ CHR '' '' #
             range_list_text rl @ s)
      = then_tokens (tokens_of e)
          (tokenize_loop n True
             (CHR '' '' # ''not'' @ CHR '' '' # ''within'' @ CHR '' '' # range_list_text rl @ s))"
    using e by (rule tokenize_expr_then)
  also have "tokenize_loop n True
          (CHR '' '' # ''not'' @ CHR '' '' # ''within'' @ CHR '' '' # range_list_text rl @ s)
      = then_tokens [(Word, ''not''), (Word, ''within'')]
          (tokenize_loop n False (range_list_text rl @ s))"
    using range_list_text_head [OF rl]
    by (intro tokenize_keyword2 keywords_reserved not_space_digit) (simp add: hd_append)
  also have "tokenize_loop n False (range_list_text rl @ s)
      = then_tokens (range_list_tokens rl) (tokenize_loop n True s)"
    using rl 6(2) by (rule tokenize_range_list)
  finally show ?case by simp
qed simp_all

lemma operand_name_head: "operand_name x \<noteq> [] \<and> \<not> is_space (hd (operand_name x))"
  by (cases x) (simp_all add: is_space_def)

lemma unparse_expr_head:
  "wf_expr e \<Longrightarrow> unparse e \<noteq> [] \<and> \<not> is_space (hd (unparse e))"
  using operand_name_head by (induction e rule: wf_expr.induct) (simp_all add: hd_append)

lemma unparse_relation_head:
  "wf_relation a \<Longrightarrow> unparse a \<noteq> [] \<and> \<not> is_space (hd (unparse a))"
  using unparse_expr_head by (induction a rule: wf_relation.induct) (simp_all add: hd_append)

lemma unparse_and_head:
  "wf_and_condition a \<Longrightarrow> unparse a \<noteq> [] \<and> \<not> is_space (hd (unparse a))"
  by (induction a rule: wf_and_condition.induct)
     (simp_all add: hd_append unparse_relation_head del: wf_relation.simps unparse.simps,
      simp_all add: hd_append)

lemma tokenize_and_condition:
  assumes "wf_and_condition a" and "s = [] \<or> \<not> is_word_char (hd s)"
  shows "tokenize_loop n False (unparse a @ s)
     = then_tokens (tokens_of a) (tokenize_loop n True s)"
  using assms
proof (induction a arbitrary: s rule: wf_and_condition.induct)
  case (1 l r)
  then have l: "wf_and_condition l" and r: "wf_relation r" by simp_all
  have "tokenize_loop n False (unparse l @ CHR '' '' # ''and'' @ CHR '' '' # unparse r @ s)
      = then_tokens (tokens_of l)
          (tokenize_loop n True (CHR '' '' # ''and'' @ CHR '' '' # unparse r @ s))"
    using l by (intro "1.IH") (simp_all add: is_word_char_def)
  also have "tokenize_loop n True (CHR '' '' # ''and'' @ CHR '' '' # unparse r @ s)
      = then_tokens [(Word, ''and'')] (tokenize_loop n False (unparse r @ s))"
    using unparse_relation_head [OF r]
    by (intro tokenize_keyword keywords_reserved) (simp add: hd_append)
  also have "tokenize_loop n False (unparse r @ s)
      = then_tokens (tokens_of r) (tokenize_loop n True s)"
    using r "1.prems"(2) by (rule tokenize_relation)
  finally show ?case by simp
qed (simp_all add: tokenize_relation del: wf_relation.simps unparse.simps tokens_of.simps)

lemma tokenize_condition:
  assumes "wf_condition a" and "s = [] \<or> \<not> is_word_char (hd s)"
  shows "tokenize_loop n False (unparse a @ s)
     = then_tokens (tokens_of a) (tokenize_loop n True s)"
  using assms
proof (induction a arbitrary: s rule: wf_condition.induct)
  case (1 l r)
  then have l: "wf_condition l" and r: "wf_and_condition r" by simp_all
  have "tokenize_loop n False (unparse l @ CHR '' '' # ''or'' @ CHR '' '' # unparse r @ s)
      = then_tokens (tokens_of l)
          (tokenize_loop n True (CHR '' '' # ''or'' @ CHR '' '' # unparse r @ s))"
    using l by (intro "1.IH") (simp_all add: is_word_char_def)
  also have "tokenize_loop n True (CHR '' '' # ''or'' @ CHR '' '' # unparse r @ s)
      = then_tokens [(Word, ''or'')] (tokenize_loop n False (unparse r @ s))"
    using unparse_and_head [OF r]
    by (intro tokenize_keyword keywords_reserved) (simp add: hd_append)
  also have "tokenize_loop n False (unparse r @ s)
      = then_tokens (tokens_of r) (tokenize_loop n True s)"
    using r "1.prems"(2) by (rule tokenize_and_condition)
  finally show ?case by simp
qed (simp_all add: tokenize_and_condition
       del: wf_and_condition.simps wf_relation.simps unparse.simps tokens_of.simps)

lemma tokenize_rule_unparse:
  assumes "wf_condition a"
  shows "tokenize_rule (unparse a) = Inr (tokens_of a)"
  using tokenize_condition [OF assms, of "[]" "length (unparse a)"]
  by (simp add: tokenize_rule_def tokenize_loop.simps [of _ _ "[]"])

lemma tokens_of_expr_nonempty: "wf_expr e \<Longrightarrow> tokens_of e \<noteq> []"
  by (induction e rule: wf_expr.induct) simp_all

lemma tokens_of_relation_nonempty: "wf_relation a \<Longrightarrow> tokens_of a \<noteq> []"
  by (induction a rule: wf_relation.induct) simp_all

lemma tokens_of_and_nonempty: "wf_and_condition a \<Longrightarrow> tokens_of a \<noteq> []"
  by (induction a rule: wf_and_condition.induct) simp_all

lemma tokens_of_nonempty: "wf_condition a \<Longrightarrow> tokens_of a \<noteq> []"
  by (induction a rule: wf_condition.induct) simp_all

lemma Parser_ast_unparse:
  assumes "wf_condition a"
  shows "Parser_ast (unparse a) = Inr (Some a)"
  using assms
  by (simp add: Parser_ast_def tokenize_rule_unparse tokens_of_nonempty condition_tokens_of)

lemma compile_unicode_operand: "compile_operand UnicodeCompiler x = operand_name x"
  by (cases x) (simp_all add: compile_operand_def UnicodeCompiler_def Compiler_def)

lemma compile_unicode: "compile UnicodeCompiler a = Inr (unparse a)"
proof (induction a)
  case (NotN a)
  then show ?case
    by (simp add: apply1_def UnicodeCompiler_def Compiler_def unary_compiler_templates)
qed (simp_all add: compile_unicode_operand apply1_def apply2_def range_list_text_def,
     simp_all add: UnicodeCompiler_def Compiler_def binary_compiler_templates
       unicode_relation_def)

subsection \<open>Round trip: the trees the parser returns\<close>

lemma digit_tokens_Cons:
  "digit_tokens (t # ts) \<longleftrightarrow>
     (if fst t = ValueT then list_all is_digit (snd t) else True) \<and> digit_tokens ts"
  by (simp add: digit_tokens_def)

lemma digit_tokens_Nil: "digit_tokens []"
  by (simp add: digit_tokens_def)

lemma first_match_value_digits:
  "first_match prev s = Some (Some ValueT, m) \<Longrightarrow> list_all is_digit m"
  by (auto simp: first_match_def match_value_def Let_def list_all_iff
        split: option.splits if_splits dest: set_takeWhileD)

lemma tokenize_loop_digit_tokens: "tokenize_loop n prev s = Inr ts \<Longrightarrow> digit_tokens ts"
proof (induction n prev s arbitrary: ts rule: tokenize_loop.induct)
  case (1 n prev s)
  show ?case
  proof (cases "s = []")
    case True
    with "1.prems" show ?thesis
      by (subst (asm) tokenize_loop.simps) (simp add: digit_tokens_Nil)
  next
    case False
    with "1.prems" obtain ty m ts' where fm: "first_match prev s = Some (ty, m)"
      and rec: "tokenize_loop n (is_word_char (last m)) (drop (length m) s) = Inr ts'"
      and ts: "ts = (case ty of None \<Rightarrow> ts' | Some tt \<Rightarrow> (tt, m) # ts')"
      by (subst (asm) tokenize_loop.simps) (auto split: option.splits sum.splits)
    from "1.IH" [OF False fm refl rec] have "digit_tokens ts'" .
    with ts fm show ?thesis
      by (cases ty) (auto simp: digit_tokens_Cons dest: first_match_value_digits)
  qed
qed

lemma digit_value: "is_digit c \<Longrightarrow> 48 \<le> int (of_char c)"
  by (auto simp: is_digit_def)

lemma foldl_digits_nonneg:
  "0 \<le> acc \<Longrightarrow> list_all is_digit m \<Longrightarrow>
     0 \<le> foldl (\<lambda>acc c. 10 * acc + (int (of_char c) - 48)) acc m"
proof (induction m arbitrary: acc)
  case Nil
  then show ?case by simp
next
  case (Cons c m)
  from Cons.prems digit_value [of c] have "0 \<le> 10 * acc + (int (of_char c) - 48)"
    by simp
  with Cons show ?case by simp
qed

lemma int_of_digits_nonneg: "list_all is_digit m \<Longrightarrow> 0 \<le> int_of_digits m"
  by (simp add: int_of_digits_def foldl_digits_nonneg)

lemma skip_token_digit_tokens:
  "skip_token ty w ts = Some rest \<Longrightarrow> digit_tokens ts \<Longrightarrow> digit_tokens rest"
  by (auto simp: skip_token_def digit_tokens_Cons split: list.splits if_splits)

lemma value_p_wf:
  "value_p ts = Inr (k, rest) \<Longrightarrow> digit_tokens ts \<Longrightarrow> 0 \<le> k \<and> digit_tokens rest"
  by (auto simp: value_p_def digit_tokens_Cons int_of_digits_nonneg
        split: list.splits if_splits)

lemma range_or_value_wf:
  "range_or_value ts = Inr (item, rest) \<Longrightarrow> digit_tokens ts \<Longrightarrow>
     wf_range item \<and> digit_tokens rest"
  by (auto simp: range_or_value_def split: sum.splits option.splits
        dest!: value_p_wf dest: skip_token_digit_tokens)

lemma range_list_wf:
  "range_list ts = Inr (rl, rest) \<Longrightarrow> digit_tokens ts \<Longrightarrow>
     rl \<noteq> [] \<and> list_all wf_range rl \<and> digit_tokens rest"
proof (induction ts arbitrary: rl rest rule: range_list.induct)
  case (1 ts)
  from "1.prems" obtain item ts1 where item: "range_or_value ts = Inr (item, ts1)"
    by (subst (asm) range_list.simps) (auto split: sum.splits)
  from range_or_value_wf [OF item "1.prems"(2)] have wf: "wf_range item"
    and ok1: "digit_tokens ts1"
    by simp_all
  show ?case
  proof (cases "skip_token Symbol '','' ts1")
    case None
    with "1.prems" item wf ok1 show ?thesis
      by (subst (asm) range_list.simps) auto
  next
    case (Some ts2)
    with "1.prems" item obtain items where rec: "range_list ts2 = Inr (items, rest)"
      and rl: "rl = item # items"
      by (subst (asm) range_list.simps) (auto split: sum.splits)
    from skip_token_digit_tokens [OF Some ok1] have "digit_tokens ts2" .
    from "1.IH" [OF item refl Some rec this] wf rl show ?thesis
      by simp
  qed
qed

lemma expr_p_wf:
  assumes "expr_p ts = Inr (e, rest)" and "digit_tokens ts"
  shows "wf_expr e \<and> digit_tokens rest"
proof (cases ts)
  case Nil
  with assms show ?thesis by (simp add: expr_p_def)
next
  case (Cons t ts1)
  with assms(2) have "digit_tokens ts1"
    by (simp add: digit_tokens_Cons)
  with assms(1) Cons show ?thesis
    by (auto simp: expr_p_def split: option.splits sum.splits if_splits
          dest!: value_p_wf dest: skip_token_digit_tokens)
qed

lemma with_value_wf:
  "with_value node ts = Inr (a, rest) \<Longrightarrow> digit_tokens ts \<Longrightarrow>
     (\<exists>k. a = node (ValueN k) \<and> 0 \<le> k) \<and> digit_tokens rest"
  by (auto simp: with_value_def split: sum.splits dest!: value_p_wf)

lemma with_range_list_wf:
  "with_range_list node ts = Inr (a, rest) \<Longrightarrow> digit_tokens ts \<Longrightarrow>
     (\<exists>rl. a = node rl \<and> rl \<noteq> [] \<and> list_all wf_range rl) \<and> digit_tokens rest"
  by (auto simp: with_range_list_def split: sum.splits dest!: range_list_wf)

lemma relation_p_wf:
  assumes "relation_p ts = Inr (a, rest)" and "digit_tokens ts"
  shows "wf_relation a \<and> digit_tokens rest"
proof -
  from assms(1) obtain left ts1 where e: "expr_p ts = Inr (left, ts1)"
    by (auto simp: relation_p_def split: sum.splits)
  from expr_p_wf [OF e assms(2)] have left: "wf_expr left" and ok1: "digit_tokens ts1"
    by simp_all
  note skip = skip_token_digit_tokens
  from assms(1) e consider
      (v) node ts2 where "with_value node ts2 = Inr (a, rest)" "digit_tokens ts2"
        "node = IsN left \<or> node = IsNotN left"
    | (rl) node ts2 where "with_range_list node ts2 = Inr (a, rest)" "digit_tokens ts2"
        "node = InN left \<or> node = NotInN left \<or> node = WithinN left \<or> node = NotWithinN left"
    unfolding relation_p_def
    by (simp split: option.splits) (blast dest: skip [OF _ ok1] skip [OF _ skip [OF _ ok1]])+
  then show ?thesis
  proof cases
    case v
    from with_value_wf [OF v(1,2)] v(3) left show ?thesis
      by auto
  next
    case rl
    from with_range_list_wf [OF rl(1,2)] rl(3) left show ?thesis
      by auto
  qed
qed

lemma wf_relation_and: "wf_relation a \<Longrightarrow> wf_and_condition a"
  by (cases a) simp_all

lemma wf_and_condition_condition: "wf_and_condition a \<Longrightarrow> wf_condition a"
  by (cases a) simp_all

lemma and_loop_wf:
  "and_loop left ts = Inr (a, rest) \<Longrightarrow> wf_and_condition left \<Longrightarrow> digit_tokens ts \<Longrightarrow>
     wf_and_condition a \<and> digit_tokens rest"
proof (induction left ts arbitrary: a rest rule: and_loop.induct)
  case (1 left ts)
  show ?case
  proof (cases "skip_token Word ''and'' ts")
    case None
    with "1.prems" show ?thesis
      by (subst (asm) and_loop.simps) simp
  next
    case (Some ts1)
    with "1.prems" obtain right ts2 where rel: "relation_p ts1 = Inr (right, ts2)"
      and rec: "and_loop (AndN left right) ts2 = Inr (a, rest)"
      by (subst (asm) and_loop.simps) (auto split: sum.splits)
    from relation_p_wf [OF rel skip_token_digit_tokens [OF Some "1.prems"(3)]]
    have "wf_relation right" and "digit_tokens ts2"
      by simp_all
    with "1.IH" [OF Some rel refl rec] "1.prems"(2) show ?thesis
      by simp
  qed
qed

lemma and_condition_wf:
  "and_condition ts = Inr (a, rest) \<Longrightarrow> digit_tokens ts \<Longrightarrow>
     wf_and_condition a \<and> digit_tokens rest"
  by (auto simp: and_condition_def split: sum.splits
        dest!: relation_p_wf dest: and_loop_wf wf_relation_and)

lemma or_loop_wf:
  "or_loop left ts = Inr (a, rest) \<Longrightarrow> wf_condition left \<Longrightarrow> digit_tokens ts \<Longrightarrow>
     wf_condition a \<and> digit_tokens rest"
proof (induction left ts arbitrary: a rest rule: or_loop.induct)
  case (1 left ts)
  show ?case
  proof (cases "skip_token Word ''or'' ts")
    case None
    with "1.prems" show ?thesis
      by (subst (asm) or_loop.simps) simp
  next
    case (Some ts1)
    with "1.prems" obtain right ts2 where ac: "and_condition ts1 = Inr (right, ts2)"
      and rec: "or_loop (OrN left right) ts2 = Inr (a, rest)"
      by (subst (asm) or_loop.simps) (auto split: sum.splits)
    from and_condition_wf [OF ac skip_token_digit_tokens [OF Some "1.prems"(3)]]
    have "wf_and_condition right" and "digit_tokens ts2"
      by simp_all
    with "1.IH" [OF Some ac refl rec] "1.prems"(2) show ?thesis
      by simp
  qed
qed

lemma condition_wf:
  "condition ts = Inr (a, rest) \<Longrightarrow> digit_tokens ts \<Longrightarrow> wf_condition a"
  by (auto simp: condition_def split: sum.splits
        dest!: and_condition_wf dest: or_loop_wf wf_and_condition_condition)

lemma Parser_ast_wf: "Parser_ast s = Inr (Some a) \<Longrightarrow> wf_condition a"
  by (auto simp: Parser_ast_def tokenize_rule_def split: sum.splits if_splits
        dest!: tokenize_loop_digit_tokens dest: condition_wf)

text \<open>Parsing the text of a parsed tree gives the tree again.\<close>

lemma Parser_ast_round_trip:
  "Parser_ast s = Inr (Some a) \<Longrightarrow>
     compile UnicodeCompiler a = Inr (unparse a) \<and> Parser_ast (unparse a) = Inr (Some a)"
  by (simp add: compile_unicode Parser_ast_unparse Parser_ast_wf)

lemma init_loop_wf:
  "init_loop found stored xs = Inr res \<Longrightarrow> list_all (\<lambda>p. wf_condition (snd p)) stored \<Longrightarrow>
     list_all (\<lambda>p. wf_condition (snd p)) res"
proof (induction xs arbitrary: found stored)
  case Nil
  then show ?case by simp
next
  case (Cons x xs)
  obtain key expr where x: "x = (key, expr)" by (cases x)
  from Cons.prems x obtain ast where p: "Parser_ast expr = Inr ast"
    and rec: "init_loop (insert key found)
                (case ast of None \<Rightarrow> stored | Some a \<Rightarrow> stored @ [(key, a)]) xs = Inr res"
    by (auto split: if_splits sum.splits)
  from p Cons.prems(2)
  have "list_all (\<lambda>p. wf_condition (snd p))
          (case ast of None \<Rightarrow> stored | Some a \<Rightarrow> stored @ [(key, a)])"
    by (cases ast) (simp_all add: Parser_ast_wf)
  from Cons.IH [OF rec this] show ?case .
qed

lemma init_loop_distinct:
  "init_loop found stored xs = Inr res \<Longrightarrow> distinct (map fst stored) \<Longrightarrow>
     fst ` set stored \<subseteq> found \<Longrightarrow> distinct (map fst res)"
proof (induction xs arbitrary: found stored)
  case Nil
  then show ?case by simp
next
  case (Cons x xs)
  obtain key expr where x: "x = (key, expr)" by (cases x)
  from Cons.prems x obtain ast where fresh: "key \<notin> found"
    and rec: "init_loop (insert key found)
                (case ast of None \<Rightarrow> stored | Some a \<Rightarrow> stored @ [(key, a)]) xs = Inr res"
    by (auto split: if_splits sum.splits)
  from fresh Cons.prems(2,3)
  have "distinct (map fst (case ast of None \<Rightarrow> stored | Some a \<Rightarrow> stored @ [(key, a)]))"
    and "fst ` set (case ast of None \<Rightarrow> stored | Some a \<Rightarrow> stored @ [(key, a)])
           \<subseteq> insert key found"
    by (cases ast; auto)+
  from Cons.IH [OF rec this] show ?case .
qed

lemma dict_set_fresh: "k \<notin> fst ` set d \<Longrightarrow> dict_set k v d = d @ [(k, v)]"
  by (induction d) auto

lemma rules_loop_distinct:
  "distinct (map fst d @ map fst stored) \<Longrightarrow>
     rules_loop d stored = Inr (d @ map (\<lambda>p. (fst p, unparse (snd p))) stored)"
proof (induction stored arbitrary: d)
  case Nil
  then show ?case by simp
next
  case (Cons x stored)
  obtain tag ast where x: "x = (tag, ast)" by (cases x)
  from Cons.prems x have fresh: "tag \<notin> fst ` set d"
    and "distinct (map fst (d @ [(tag, unparse ast)]) @ map fst stored)"
    by auto
  from Cons.IH [OF this(2)] fresh x show ?case
    by (simp add: compile_unicode dict_set_fresh)
qed

text \<open>
  C4: for every \<^verbatim>\<open>PluralRule\<close> that the constructor builds, the property \<^verbatim>\<open>rules\<close> renders
  each stored tree through the Unicode compiler, and parsing the rendered text of a tag
  again gives the tree stored for that tag: the re-parsed \<open>(tag, ast)\<close> pairs are
  \<^verbatim>\<open>abstract\<close>.
\<close>

theorem rules_round_trip:
  assumes "rules = RuleMapping pairs \<or> rules = RulePairs pairs"
    and "PluralRule_init rules = Inr r"
  shows "\<exists>texts. PluralRule_rules r = Inr texts \<and>
     map (\<lambda>p. (fst p, Parser_ast (snd p))) texts
       = map (\<lambda>p. (fst p, Inr (Some (snd p)))) (abstract r)"
proof -
  from assms obtain stored where init: "init_loop {} [] (sort pairs) = Inr stored"
    and r: "r = \<lparr>abstract = stored, func = None\<rparr>"
    by (auto simp: PluralRule_init_def split: sum.splits)
  from init_loop_wf [OF init] have wf: "list_all (\<lambda>p. wf_condition (snd p)) stored"
    by simp
  from init_loop_distinct [OF init] have "distinct (map fst stored)"
    by simp
  then have "rules_loop [] stored = Inr (map (\<lambda>p. (fst p, unparse (snd p))) stored)"
    using rules_loop_distinct [of "[]" stored] by simp
  moreover from wf
  have "map (\<lambda>p. (fst p, Parser_ast (snd p))) (map (\<lambda>p. (fst p, unparse (snd p))) stored)
      = map (\<lambda>p. (fst p, Inr (Some (snd p)))) stored"
    by (simp add: list_all_iff Parser_ast_unparse)
  ultimately show ?thesis
    using r by (simp add: PluralRule_rules_def)
qed

theorem rules_round_trip_witness:
  "PluralRule_init (RuleMapping [(''one'', ''n in 1,11''), (''few'', ''n in 3..10,13..19'')])
     = Inr \<lparr>abstract = [(''few'', InN (OperandN Op_n) [Span 3 10, Span 13 19]),
                        (''one'', InN (OperandN Op_n) [Bare 1, Bare 11])], func = None\<rparr>
   \<and> PluralRule_rules
        \<lparr>abstract = [(''few'', InN (OperandN Op_n) [Span 3 10, Span 13 19]),
                     (''one'', InN (OperandN Op_n) [Bare 1, Bare 11])], func = None\<rparr>
       = Inr [(''few'', ''n in 3..10,13..19''), (''one'', ''n in 1,11'')]
   \<and> map (\<lambda>p. (fst p, Parser_ast (snd p)))
        [(''few'', ''n in 3..10,13..19''), (''one'', ''n in 1,11'')]
       = [(''few'', Inr (Some (InN (OperandN Op_n) [Span 3 10, Span 13 19]))),
          (''one'', Inr (Some (InN (OperandN Op_n) [Bare 1, Bare 11])))]"
proof -
  have texts: "PluralRule_rules
        \<lparr>abstract = [(''few'', InN (OperandN Op_n) [Span 3 10, Span 13 19]),
                     (''one'', InN (OperandN Op_n) [Bare 1, Bare 11])], func = None\<rparr>
       = Inr [(''few'', ''n in 3..10,13..19''), (''one'', ''n in 1,11'')]"
    by code_simp
  from rules_round_trip
    [of "RuleMapping [(''one'', ''n in 1,11''), (''few'', ''n in 3..10,13..19'')]"
        "[(''one'', ''n in 1,11''), (''few'', ''n in 3..10,13..19'')]", OF _ init_one_few]
    texts init_one_few
  show ?thesis
    by simp
qed

end
